theory Spec2Isabelle
  imports Complex_Main
begin

section \<open>Data model\<close>

text \<open>
  The scene catalog is data of its own module (\<open>../data/scenes\<close>); the engine reads
  only the fields below from a \<open>SceneCue\<close>, and the catalog is a parameter \<open>scenes\<close>
  of every operation that uses it. JavaScript numbers are read as real numbers.
\<close>

text \<open>A JavaScript string: its UTF-16 code units. \<open>str\<close> embeds an ASCII literal.\<close>

type_synonym js_string = "nat list"

definition str :: "string \<Rightarrow> js_string" where
  "str cs = map of_char cs"

record palette =
  pal_start :: js_string
  pal_end :: js_string
  glow :: js_string
  accent :: js_string

record scene_cue =
  duration :: real
  title :: js_string
  subtitle :: js_string
  description :: js_string
  palette :: palette
  illustration :: js_string

datatype playback_state = Idle | Playing | Rendering | Completed | Error

text \<open>The \<open>state\<close> attribute of a \<open>MediaRecorder\<close>.\<close>

datatype recording_state = Inactive | Recording | Paused

record media_recorder =
  rec_state :: recording_state
  rec_stream :: nat

text \<open>
  A queued \<open>stop\<close> event of a recorder: the \<open>finalize\<close> flag its \<open>onstop\<close> handler
  closed over, and the playback state that the continuation chained on the returned
  promise will set (\<open>None\<close> when the promise was dropped with \<open>void\<close>).
\<close>

record stop_event =
  finalize :: bool
  continuation :: "playback_state option"

datatype promise = Resolved | Pending

datatype error = TypeError

text \<open>What the surrounding browser offers; read, never written, by the engine.\<close>

record browser =
  canvasMounted :: bool
  context2d :: bool
  windowDefined :: bool
  mediaRecorderInWindow :: bool
  captureStreamOk :: bool
  recorderCtorThrows :: bool

text \<open>
  The refs and React state of \<open>WorldVideoStudio\<close>, together with the browser-side
  resources they point to:
  \<^item> \<open>rafQueue\<close>: the pending animation-frame requests, each a handle and the
    \<open>activeScene\<close> value that the requested \<open>renderFrame\<close> callback closed over
    (\<open>renderFrame\<close> is memoised per \<open>activeScene\<close> and re-requests itself);
  \<open>nextHandle\<close> is the next handle \<open>requestAnimationFrame\<close> returns;
  \<^item> \<open>stopQueue\<close>: the recorder \<open>stop\<close> events requested and not yet delivered;
  \<^item> \<open>liveStreams\<close>: the capture streams whose tracks have not been stopped;
  \<^item> \<open>liveUrls\<close>: the object URLs created and not revoked; \<open>nextId\<close> is fresh for
    streams and URLs;
  \<^item> \<open>effectUrl\<close>: the \<open>videoUrl\<close> of the last commit, which the registered cleanup
    of the effect on \<open>videoUrl\<close> closed over;
  \<^item> \<open>canvas\<close>: the arguments of the last \<open>drawScene\<close> call (it clears and repaints
    the whole surface);
  \<^item> \<open>notifications\<close>: the arguments of the \<open>setActiveScene\<close> calls issued so far.
\<close>

record engine =
  animationRef :: "nat option"
  startTimeRef :: "real option"
  playbackState :: playback_state
  activeScene :: nat
  videoUrl :: "nat option"
  effectUrl :: "nat option"
  recorderRef :: "media_recorder option"
  recordedChunksRef :: "nat list"
  streamRef :: "nat option"
  rafQueue :: "(nat \<times> nat) list"
  nextHandle :: nat
  stopQueue :: "stop_event list"
  liveStreams :: "nat set"
  liveUrls :: "nat set"
  nextId :: nat
  canvas :: "(scene_cue \<times> real \<times> real) option"
  notifications :: "nat list"

section \<open>Timeline\<close>

definition totalDurationMs :: "scene_cue list \<Rightarrow> real" where
  "totalDurationMs scenes = foldl (\<lambda>acc scene. acc + duration scene * 1000) 0 scenes"

text \<open>
  The \<open>for\<close> loop of \<open>renderFrame\<close> over the scenes from index \<open>i\<close> on, with the
  running \<open>cumulative\<close>; the result is \<open>(currentIndex, cumulative)\<close> after the loop.
  When no scene matches, \<open>currentIndex\<close> keeps its initial value \<open>0\<close>.
\<close>

fun resolveLoop :: "scene_cue list \<Rightarrow> real \<Rightarrow> nat \<Rightarrow> real \<Rightarrow> nat \<times> real" where
  "resolveLoop [] elapsed i cumulative = (0, cumulative)"
| "resolveLoop (scene # rest) elapsed i cumulative =
     (let sceneDuration = duration scene * 1000 in
      if elapsed < cumulative + sceneDuration then (i, cumulative)
      else resolveLoop rest elapsed (i + 1) (cumulative + sceneDuration))"

text \<open>\<open>scenes[i]\<close>: \<open>undefined\<close> out of range.\<close>

definition sceneAt :: "scene_cue list \<Rightarrow> nat \<Rightarrow> scene_cue option" where
  "sceneAt scenes i = (if i < length scenes then Some (scenes ! i) else None)"

text \<open>The window of scene \<open>i\<close>: its cumulative start and end in milliseconds.\<close>

definition windowStart :: "scene_cue list \<Rightarrow> nat \<Rightarrow> real" where
  "windowStart scenes i = totalDurationMs (take i scenes)"

definition windowEnd :: "scene_cue list \<Rightarrow> nat \<Rightarrow> real" where
  "windowEnd scenes i = totalDurationMs (take (Suc i) scenes)"

section \<open>Frame loop and recorder\<close>

definition cancelAnimationFrame :: "nat \<Rightarrow> engine \<Rightarrow> engine" where
  "cancelAnimationFrame h s = s\<lparr>rafQueue := filter (\<lambda>(h', a). h' \<noteq> h) (rafQueue s)\<rparr>"

text \<open>Requests a frame for the \<open>renderFrame\<close> that closed over \<open>a\<close>; stores the handle.\<close>

definition requestAnimationFrame :: "nat \<Rightarrow> engine \<Rightarrow> engine" where
  "requestAnimationFrame a s =
     s\<lparr>animationRef := Some (nextHandle s),
       rafQueue := rafQueue s @ [(nextHandle s, a)],
       nextHandle := Suc (nextHandle s)\<rparr>"

definition clearAnimation :: "engine \<Rightarrow> engine" where
  "clearAnimation s =
     (case animationRef s of
        None \<Rightarrow> s
      | Some h \<Rightarrow> (cancelAnimationFrame h s)\<lparr>animationRef := None\<rparr>)"

text \<open>\<open>setVideoUrl\<close> with a value: the state changes, nothing is revoked.\<close>

definition setVideoUrl :: "nat option \<Rightarrow> engine \<Rightarrow> engine" where
  "setVideoUrl new s = s\<lparr>videoUrl := new\<rparr>"

text \<open>
  A commit of React after state changes. When \<open>videoUrl\<close> differs from its value at the
  last commit, the cleanup of the effect on \<open>videoUrl\<close> runs, which revokes the URL of
  the last commit, and the effect is registered anew.
\<close>

definition commitVideoUrl :: "engine \<Rightarrow> engine" where
  "commitVideoUrl s =
     (if effectUrl s = videoUrl s then s
      else s\<lparr>liveUrls := (case effectUrl s of None \<Rightarrow> liveUrls s
                          | Some previous \<Rightarrow> liveUrls s - {previous}),
             effectUrl := videoUrl s\<rparr>)"

definition recorderActive :: "engine \<Rightarrow> bool" where
  "recorderActive s =
     (case recorderRef s of None \<Rightarrow> False | Some r \<Rightarrow> rec_state r \<noteq> Inactive)"

text \<open>
  \<open>stopRecorder\<close>. With an active recorder it installs the \<open>onstop\<close> handler and calls
  \<open>recorder.stop()\<close>, which makes the recorder inactive and queues its \<open>stop\<close> event;
  the promise returned is resolved by that event. Otherwise it returns a resolved
  promise.
\<close>

definition stopRecorder :: "bool \<Rightarrow> engine \<Rightarrow> promise \<times> engine" where
  "stopRecorder fin s =
     (case recorderRef s of
        None \<Rightarrow> (Resolved, s)
      | Some recorder \<Rightarrow>
          if rec_state recorder \<noteq> Inactive then
            (Pending,
             s\<lparr>recorderRef := Some (recorder\<lparr>rec_state := Inactive\<rparr>),
               stopQueue := stopQueue s @ [\<lparr>finalize = fin, continuation = None\<rparr>]\<rparr>)
          else (Resolved, s))"

text \<open>
  \<open>.then(() => setPlaybackState(st))\<close> and \<open>.finally(...)\<close> on the promise of
  \<open>stopRecorder\<close>: on a resolved promise the callback runs at once; on a pending one it
  is attached to the stop event just queued.
\<close>

fun onSettled :: "playback_state \<Rightarrow> promise \<times> engine \<Rightarrow> engine" where
  "onSettled st (Resolved, s) = s\<lparr>playbackState := st\<rparr>"
| "onSettled st (Pending, s) =
     (case rev (stopQueue s) of
        [] \<Rightarrow> s
      | ev # before \<Rightarrow> s\<lparr>stopQueue := rev before @ [ev\<lparr>continuation := Some st\<rparr>]\<rparr>)"

text \<open>
  Delivery of a queued \<open>stop\<close> event: the \<open>onstop\<close> handler of \<open>stopRecorder\<close> runs,
  then the continuation chained on its promise.
\<close>

definition onstop :: "stop_event \<Rightarrow> engine \<Rightarrow> engine" where
  "onstop ev s =
     (let s1 = (if finalize ev
                then setVideoUrl (Some (nextId s))
                       (s\<lparr>liveUrls := insert (nextId s) (liveUrls s), nextId := Suc (nextId s)\<rparr>)
                else s);
          s2 = s1\<lparr>recordedChunksRef := [],
                  liveStreams := (case streamRef s1 of None \<Rightarrow> liveStreams s1
                                  | Some stream \<Rightarrow> liveStreams s1 - {stream}),
                  streamRef := None,
                  recorderRef := None\<rparr>
      in case continuation ev of None \<Rightarrow> s2 | Some st \<Rightarrow> s2\<lparr>playbackState := st\<rparr>)"

definition fireStop :: "engine \<Rightarrow> engine" where
  "fireStop s =
     (case stopQueue s of [] \<Rightarrow> s | ev # rest \<Rightarrow> onstop ev (s\<lparr>stopQueue := rest\<rparr>))"

text \<open>The \<open>ondataavailable\<close> handler installed by \<open>initialiseRecorder\<close>.\<close>

definition ondataavailable :: "nat \<Rightarrow> engine \<Rightarrow> engine" where
  "ondataavailable dataSize s =
     (if dataSize > 0 then s\<lparr>recordedChunksRef := recordedChunksRef s @ [dataSize]\<rparr> else s)"

definition drawSceneOn :: "scene_cue \<Rightarrow> real \<Rightarrow> real \<Rightarrow> engine \<Rightarrow> engine" where
  "drawSceneOn scene sceneProgress globalProgress s =
     s\<lparr>canvas := Some (scene, sceneProgress, globalProgress)\<rparr>"

definition setActiveScene :: "nat \<Rightarrow> engine \<Rightarrow> engine" where
  "setActiveScene i s = s\<lparr>activeScene := i, notifications := notifications s @ [i]\<rparr>"

text \<open>
  \<open>renderFrame\<close>, as the callback that closed over \<open>activeScene = captured\<close>. Reading a
  field of \<open>undefined\<close> (a scene index out of range) throws.
\<close>

definition renderFrame ::
  "browser \<Rightarrow> scene_cue list \<Rightarrow> nat \<Rightarrow> real \<Rightarrow> engine \<Rightarrow> error + engine" where
  "renderFrame env scenes captured timestamp s =
     (if \<not> canvasMounted env then Inr s
      else if \<not> context2d env then Inr s
      else
        let s0 = (if startTimeRef s = None then s\<lparr>startTimeRef := Some timestamp\<rparr> else s);
            elapsed = timestamp - (case startTimeRef s0 of None \<Rightarrow> 0 | Some start \<Rightarrow> start)
        in if elapsed \<ge> totalDurationMs scenes then
             (case sceneAt scenes (length scenes - 1) of
                None \<Rightarrow> Inl TypeError
              | Some final \<Rightarrow>
                  let s1 = drawSceneOn final 1 1 s0;
                      s2 = clearAnimation s1;
                      s3 = s2\<lparr>startTimeRef := None\<rparr>
                  in if recorderActive s3
                     then Inr (onSettled Completed (stopRecorder True s3))
                     else Inr (s3\<lparr>playbackState := Completed\<rparr>))
           else
             let (currentIndex, cumulative) = resolveLoop scenes elapsed 0 0;
                 s1 = (if captured \<noteq> currentIndex then setActiveScene currentIndex s0 else s0)
             in case sceneAt scenes currentIndex of
                  None \<Rightarrow> Inl TypeError
                | Some currentScene \<Rightarrow>
                    let sceneProgress = (elapsed - cumulative) / (duration currentScene * 1000);
                        globalProgress = elapsed / totalDurationMs scenes
                    in Inr (requestAnimationFrame captured
                              (drawSceneOn currentScene sceneProgress globalProgress s1)))"

text \<open>The browser runs the oldest pending animation-frame callback.\<close>

definition tick :: "browser \<Rightarrow> scene_cue list \<Rightarrow> real \<Rightarrow> engine \<Rightarrow> error + engine" where
  "tick env scenes timestamp s =
     (case rafQueue s of
        [] \<Rightarrow> Inr s
      | (h, captured) # rest \<Rightarrow> renderFrame env scenes captured timestamp (s\<lparr>rafQueue := rest\<rparr>))"

section \<open>Playback control\<close>

text \<open>
  \<open>initialiseRecorder\<close>. \<open>captureStream\<close> creates a stream with a live track; the
  recorder constructor may throw, which the \<open>catch\<close> turns into the \<open>error\<close> state.
\<close>

definition initialiseRecorder :: "browser \<Rightarrow> engine \<Rightarrow> bool \<times> engine" where
  "initialiseRecorder env s =
     (if \<not> canvasMounted env then (False, s)
      else if \<not> windowDefined env then (False, s)
      else if \<not> mediaRecorderInWindow env then (False, s\<lparr>playbackState := Error\<rparr>)
      else if \<not> captureStreamOk env then (False, s)
      else
        let stream = nextId s;
            s1 = s\<lparr>liveStreams := insert stream (liveStreams s), nextId := Suc (nextId s)\<rparr>
        in if recorderCtorThrows env then (False, s1\<lparr>playbackState := Error\<rparr>)
           else (True,
                 s1\<lparr>recordedChunksRef := [],
                    recorderRef := Some \<lparr>rec_state = Inactive, rec_stream = stream\<rparr>,
                    streamRef := Some stream\<rparr>))"

text \<open>\<open>recorderRef.current?.start()\<close>.\<close>

definition startRecorder :: "engine \<Rightarrow> engine" where
  "startRecorder s =
     (case recorderRef s of
        None \<Rightarrow> s
      | Some recorder \<Rightarrow> s\<lparr>recorderRef := Some (recorder\<lparr>rec_state := Recording\<rparr>)\<rparr>)"

text \<open>
  \<open>startPlayback\<close>. The updater passed to \<open>setVideoUrl\<close> revokes the previous URL and
  returns \<open>null\<close>. The frame requested is for the \<open>renderFrame\<close> of the current render,
  which closed over the current \<open>activeScene\<close>.
\<close>

definition startPlayback :: "browser \<Rightarrow> bool \<Rightarrow> engine \<Rightarrow> engine" where
  "startPlayback env record s =
     (if \<not> canvasMounted env then s
      else if \<not> context2d env then s
      else
        let s1 = clearAnimation s;
            s2 = s1\<lparr>startTimeRef := None\<rparr>;
            s3 = setVideoUrl None
                   (s2\<lparr>liveUrls := (case videoUrl s2 of None \<Rightarrow> liveUrls s2
                                     | Some previous \<Rightarrow> liveUrls s2 - {previous})\<rparr>)
        in if record then
             (let (canRecord, s4) = initialiseRecorder env s3
              in if \<not> canRecord then s4
                 else requestAnimationFrame (activeScene s4)
                        (startRecorder (s4\<lparr>playbackState := Rendering\<rparr>)))
           else requestAnimationFrame (activeScene s3) (s3\<lparr>playbackState := Playing\<rparr>))"

definition stopPlayback :: "engine \<Rightarrow> engine" where
  "stopPlayback s =
     (let s1 = clearAnimation s;
          s2 = s1\<lparr>startTimeRef := None\<rparr>
      in if playbackState s = Rendering then onSettled Idle (stopRecorder True s2)
         else s2\<lparr>playbackState := Idle\<rparr>)"

text \<open>The effect run when the component mounts: it paints the first scene.\<close>

definition mountEffect :: "browser \<Rightarrow> scene_cue list \<Rightarrow> engine \<Rightarrow> error + engine" where
  "mountEffect env scenes s =
     (if \<not> canvasMounted env then Inr s
      else if \<not> context2d env then Inr s
      else case sceneAt scenes 0 of
             None \<Rightarrow> Inl TypeError
           | Some first \<Rightarrow> Inr (setActiveScene 0 (drawSceneOn first 0 0 s)))"

text \<open>
  The cleanup of the mount effect (registered only when the canvas and its context
  were there): \<open>void stopRecorder()\<close> drops the promise.
\<close>

definition mountCleanup :: "engine \<Rightarrow> engine" where
  "mountCleanup s =
     (let s1 = clearAnimation s;
          s2 = snd (stopRecorder False s1)
      in s2\<lparr>startTimeRef := None\<rparr>)"

text \<open>
  The cleanup of the effect on \<open>videoUrl\<close>, as run when the component goes away: it
  revokes the URL it closed over.
\<close>

definition videoUrlCleanup :: "engine \<Rightarrow> engine" where
  "videoUrlCleanup s =
     (case effectUrl s of None \<Rightarrow> s | Some url \<Rightarrow> s\<lparr>liveUrls := liveUrls s - {url}\<rparr>)"

text \<open>The component as first rendered: every ref and state at its initial value.\<close>

definition initialEngine :: engine where
  "initialEngine =
     \<lparr>animationRef = None, startTimeRef = None, playbackState = Idle, activeScene = 0,
      videoUrl = None, effectUrl = None, recorderRef = None, recordedChunksRef = [], streamRef = None,
      rafQueue = [], nextHandle = 0, stopQueue = [], liveStreams = {}, liveUrls = {},
      nextId = 0, canvas = None, notifications = []\<rparr>"

section \<open>The drawing surface\<close>

text \<open>
  A frame is the sequence of calls made on the 2D context. A gradient object is the
  value built by \<open>createLinearGradient\<close> or \<open>createRadialGradient\<close> and its
  \<open>addColorStop\<close> calls. A colour given by a template literal
  \<open>rgba(r, g, b, ${a})\<close> is kept as its four numbers.
\<close>

datatype style =
  Colour js_string
| Rgba real real real real
| LinearGradient real real real real "(real \<times> js_string) list"
| RadialGradient real real real real real real "(real \<times> js_string) list"

datatype canvas_call =
  Save
| Restore
| ClearRect real real real real
| FillStyle style
| StrokeStyle style
| LineWidth real
| LineDash "real list"
| GlobalAlpha real
| Font js_string
| FillRect real real real real
| FillText js_string real real
| BeginPath
| ClosePath
| MoveTo real real
| LineTo real real
| BezierCurveTo real real real real real real
| Arc real real real real real
| Fill
| Stroke
| Clip

definition CANVAS_WIDTH :: real where
  "CANVAS_WIDTH = 1280"

definition CANVAS_HEIGHT :: real where
  "CANVAS_HEIGHT = 720"

definition CURVE_POINTS :: "(real \<times> real) list" where
  "CURVE_POINTS = [(0.1, 0.35), (0.25, 0.22), (0.5, 0.18), (0.75, 0.24), (0.9, 0.33)]"

text \<open>
  \<open>for (let v = v0; v <= limit; v += step)\<close> over numbers, collecting the calls of the
  body; the three of this kind step by \<open>\<pi>/90\<close> up to \<open>2\<pi>\<close>, by 12 and by 10 up to
  the width.
\<close>

function angleLoop :: "(real \<Rightarrow> canvas_call list) \<Rightarrow> real \<Rightarrow> canvas_call list" where
  "angleLoop body angle =
     (if angle \<le> pi * 2 then body angle @ angleLoop body (angle + pi / 90) else [])"
  by pat_completeness auto
termination
proof (relation "measure (\<lambda>(body, angle). nat (\<lfloor>(pi * 2 - angle) / (pi / 90)\<rfloor> + 1))")
  show "wf (measure (\<lambda>(body :: real \<Rightarrow> canvas_call list, angle).
          nat (\<lfloor>(pi * 2 - angle) / (pi / 90)\<rfloor> + 1)))"
    by simp
next
  fix body :: "real \<Rightarrow> canvas_call list" and angle :: real
  assume le: "angle \<le> pi * 2"
  define q where "q = (pi * 2 - angle) / (pi / 90)"
  have eq: "(pi * 2 - (angle + pi / 90)) / (pi / 90) = q - 1"
    unfolding q_def using pi_gt_zero by (simp add: field_simps)
  have "0 \<le> q"
    unfolding q_def using le pi_gt_zero by simp
  then have "0 \<le> \<lfloor>q\<rfloor>"
    by simp
  then have "nat (\<lfloor>q - 1\<rfloor> + 1) < nat (\<lfloor>q\<rfloor> + 1)"
    by simp
  then show "((body, angle + pi / 90), (body, angle))
      \<in> measure (\<lambda>(body, angle). nat (\<lfloor>(pi * 2 - angle) / (pi / 90)\<rfloor> + 1))"
    unfolding in_measure prod.case eq q_def [symmetric] .
qed

function duneLoop :: "(real \<Rightarrow> canvas_call list) \<Rightarrow> real \<Rightarrow> real \<Rightarrow> canvas_call list" where
  "duneLoop body width x =
     (if x \<le> width then body x @ duneLoop body width (x + 12) else [])"
  by pat_completeness auto
termination
proof (relation "measure (\<lambda>(body, width, x). nat (\<lfloor>(width - x) / 12\<rfloor> + 1))")
  show "wf (measure (\<lambda>(body :: real \<Rightarrow> canvas_call list, width, x).
          nat (\<lfloor>(width - x) / 12\<rfloor> + 1)))"
    by simp
next
  fix body :: "real \<Rightarrow> canvas_call list" and width x :: real
  assume le: "x \<le> width"
  define q where "q = (width - x) / 12"
  have eq: "(width - (x + 12)) / 12 = q - 1"
    unfolding q_def by (simp add: field_simps)
  have "0 \<le> q"
    unfolding q_def using le by simp
  then have "0 \<le> \<lfloor>q\<rfloor>"
    by simp
  then have "nat (\<lfloor>q - 1\<rfloor> + 1) < nat (\<lfloor>q\<rfloor> + 1)"
    by simp
  then show "((body, width, x + 12), (body, width, x))
      \<in> measure (\<lambda>(body, width, x). nat (\<lfloor>(width - x) / 12\<rfloor> + 1))"
    unfolding in_measure prod.case eq q_def [symmetric] .
qed

function waveLoop :: "(real \<Rightarrow> canvas_call list) \<Rightarrow> real \<Rightarrow> real \<Rightarrow> canvas_call list" where
  "waveLoop body width x =
     (if x \<le> width then body x @ waveLoop body width (x + 10) else [])"
  by pat_completeness auto
termination
proof (relation "measure (\<lambda>(body, width, x). nat (\<lfloor>(width - x) / 10\<rfloor> + 1))")
  show "wf (measure (\<lambda>(body :: real \<Rightarrow> canvas_call list, width, x).
          nat (\<lfloor>(width - x) / 10\<rfloor> + 1)))"
    by simp
next
  fix body :: "real \<Rightarrow> canvas_call list" and width x :: real
  assume le: "x \<le> width"
  define q where "q = (width - x) / 10"
  have eq: "(width - (x + 10)) / 10 = q - 1"
    unfolding q_def by (simp add: field_simps)
  have "0 \<le> q"
    unfolding q_def using le by simp
  then have "0 \<le> \<lfloor>q\<rfloor>"
    by simp
  then have "nat (\<lfloor>q - 1\<rfloor> + 1) < nat (\<lfloor>q\<rfloor> + 1)"
    by simp
  then show "((body, width, x + 10), (body, width, x))
      \<in> measure (\<lambda>(body, width, x). nat (\<lfloor>(width - x) / 10\<rfloor> + 1))"
    unfolding in_measure prod.case eq q_def [symmetric] .
qed

text \<open>The remainder operator \<open>%\<close> on numbers: the quotient is truncated towards zero.\<close>

definition js_rem :: "real \<Rightarrow> real \<Rightarrow> real" where
  "js_rem a b =
     a - b * of_int (if 0 \<le> a / b then \<lfloor>a / b\<rfloor> else \<lceil>a / b\<rceil>)"

section \<open>The frame compositor\<close>

text \<open>
  Every drawing routine is the list of context calls it makes on a surface of the given
  \<open>width\<close> and \<open>height\<close> (\<open>ctx.canvas\<close>). A counting loop with constant bounds is the
  \<open>map\<close> over the values its variable takes. \<open>Math.pow\<close> is \<open>powr\<close>, which agrees with
  it on the non-negative progress values the frame loop passes.
\<close>

definition drawEarth :: "real \<Rightarrow> real \<Rightarrow> scene_cue \<Rightarrow> real \<Rightarrow> real \<Rightarrow> canvas_call list" where
  "drawEarth width height scene sceneProgress globalProgress =
     (let radius = height * 0.28;
          centerX = width * 0.42 + sin (globalProgress * pi * 2) * width * 0.06;
          centerY = height * 0.52 + cos (sceneProgress * pi) * height * 0.02;
          earthGradient =
            RadialGradient (centerX - radius * 0.35) (centerY - radius * 0.4) (radius * 0.2)
              centerX centerY (radius * 1.1)
              [(0, str ''rgba(255, 255, 255, 0.65)''),
               (0.35, accent (palette scene)),
               (1, pal_start (palette scene))]
      in [FillStyle earthGradient, BeginPath, Arc centerX centerY radius 0 (pi * 2),
          ClosePath, Fill, Save, Clip,
          StrokeStyle (Colour (str ''rgba(255, 255, 255, 0.22)'')), LineWidth 1.4]
         @ concat (map (\<lambda>lat.
             let latRadius = radius * cos ((lat * pi) / 180);
                 latY = centerY + radius * sin ((lat * pi) / 180)
             in [BeginPath]
                @ angleLoop (\<lambda>angle.
                    let px = centerX + latRadius * cos angle;
                        py = latY + (radius * sin angle * sin ((lat * pi) / 180)) / radius
                    in if angle = 0 then [MoveTo px py] else [LineTo px py]) 0
                @ [Stroke])
             [-60, -40, -20, 0, 20, 40, 60])
         @ concat (map (\<lambda>lon.
             [BeginPath]
             @ angleLoop (\<lambda>theta.
                 let x = centerX + radius * sin theta * cos ((lon * pi) / 180);
                     y = centerY + radius * cos theta
                 in if theta = 0 then [MoveTo x y] else [LineTo x y]) 0
             @ [Stroke])
             [-120, -90, -60, -30, 0, 30, 60, 90, 120])
         @ [Restore, StrokeStyle (Colour (str ''rgba(255, 255, 255, 0.25)'')), LineWidth 2.5,
            BeginPath, Arc centerX centerY radius 0 (pi * 2), Stroke])"

definition drawAtmosphericRings :: "real \<Rightarrow> real \<Rightarrow> real \<Rightarrow> js_string \<Rightarrow> canvas_call list" where
  "drawAtmosphericRings width height sceneProgress accentColour =
     (let baseRadius = height * 0.32;
          centerX = width * 0.42;
          centerY = height * 0.52
      in [Save, StrokeStyle (Colour (accentColour @ str ''aa'')), LineWidth 1.2, LineDash [6, 14]]
         @ concat (map (\<lambda>i.
             let expansion = baseRadius + real i * 42 + sin (sceneProgress * pi * 2 + real i) * 8
             in [BeginPath, Arc centerX centerY expansion 0 (pi * 2), Stroke])
             [0..<4])
         @ [Restore])"

definition drawSunrise :: "real \<Rightarrow> real \<Rightarrow> real \<Rightarrow> js_string \<Rightarrow> canvas_call list" where
  "drawSunrise width height progress accentColour =
     (let sunY = height * (0.65 - (progress powr 0.7) * 0.25);
          sunRadius = 220;
          gradient =
            RadialGradient (width * 0.48) sunY (sunRadius * 0.4) (width * 0.5) sunY sunRadius
              [(0, accentColour), (1, str ''rgba(255, 93, 0, 0)'')]
      in [FillStyle gradient, BeginPath, Arc (width * 0.5) sunY sunRadius 0 (pi * 2), Fill,
          StrokeStyle (Colour (str ''rgba(255, 255, 255, 0.18)'')), LineWidth 3,
          BeginPath, MoveTo (width * 0.18) (height * 0.68)]
         @ map (\<lambda>(index, (px, py)).
             let pointProgress = progress * (real index + 1);
                 controlX = width * (px + 0.08 * sin (pointProgress * pi))
             in LineTo controlX (height * py))
             (enumerate 0 CURVE_POINTS)
         @ [LineTo (width * 0.82) (height * 0.72), Stroke])"

text \<open>
  \<open>drawCityLights\<close> is the one routine that calls \<open>Math.random\<close>: once per building,
  88 times in a call. \<open>random k\<close> is the value of the \<open>k\<close>-th draw of the call.
\<close>

definition drawCityLights ::
  "(nat \<Rightarrow> real) \<Rightarrow> real \<Rightarrow> real \<Rightarrow> real \<Rightarrow> js_string \<Rightarrow> canvas_call list" where
  "drawCityLights random width height progress accentColour =
     concat (map (\<lambda>layer.
       let opacity = 0.15 + real layer * 0.1;
           buildingHeight = 80 + real layer * 30
       in [FillStyle (Rgba 255 255 255 opacity)]
          @ concat (map (\<lambda>i.
              let x = width * 0.28 + real i * 24 + sin (progress * 2 + real i) * 8;
                  h = buildingHeight + sin (progress * 3 + real i * 0.4) * 18
              in [FillRect x (height - h - real layer * 10) 18 h]
                 @ (if random (layer * 22 + i) > 0.7
                    then [FillStyle (Colour (accentColour @ str ''aa'')),
                          FillRect (x + 4) (height - h - real layer * 10 + 18) 6 12,
                          FillStyle (Rgba 255 255 255 opacity)]
                    else []))
              [0..<22]))
       [0..<4])"

definition drawForestCanopy :: "real \<Rightarrow> real \<Rightarrow> real \<Rightarrow> js_string \<Rightarrow> canvas_call list" where
  "drawForestCanopy width height progress accentColour =
     [Save, FillStyle (Colour (accentColour @ str ''55''))]
     @ concat (map (\<lambda>i.
         let baseX = (real i / 90) * width;
             baseY = height * 0.72 + sin (progress * 2 + real i * 0.3) * 12;
             canopyHeight = 140 + sin (progress * 3 + real i) * 26
         in [BeginPath, MoveTo baseX baseY,
             BezierCurveTo (baseX + 12) (baseY - canopyHeight * 0.5)
               (baseX + 26) (baseY - canopyHeight) (baseX + 42) baseY,
             ClosePath, Fill])
         [0..<90])
     @ [Restore]"

definition drawDesert :: "real \<Rightarrow> real \<Rightarrow> real \<Rightarrow> js_string \<Rightarrow> canvas_call list" where
  "drawDesert width height progress accentColour =
     [Save]
     @ concat (map (\<lambda>i.
         let offset = real i * 0.25;
             amplitude = 40 + real i * 12
         in [FillStyle (Rgba 255 208 138 (0.12 + real i * 0.07)), BeginPath,
             MoveTo 0 (height * 0.75 + real i * 18)]
            @ duneLoop (\<lambda>x.
                [LineTo x (height * 0.75
                   + sin ((x / width) * pi * 2 + progress * 2 + offset) * amplitude)])
                width 0
            @ [LineTo width height, LineTo 0 height, ClosePath, Fill])
         [0..<5])
     @ [Restore]"

definition drawSea :: "real \<Rightarrow> real \<Rightarrow> real \<Rightarrow> js_string \<Rightarrow> canvas_call list" where
  "drawSea width height progress accentColour =
     [Save, StrokeStyle (Colour (accentColour @ str ''bb'')), LineWidth 2]
     @ concat (map (\<lambda>wave.
         let offset = real wave * 18
         in [BeginPath]
            @ waveLoop (\<lambda>x.
                let y = height * 0.62
                      + sin ((x / width) * pi * 4 + progress * 4 + real wave)
                        * (12 + real wave * 3)
                in if x = 0 then [MoveTo x (y + offset)] else [LineTo x (y + offset)])
                width 0
            @ [Stroke])
         [0..<6])
     @ [Restore]"

definition drawStarscape :: "real \<Rightarrow> real \<Rightarrow> real \<Rightarrow> js_string \<Rightarrow> canvas_call list" where
  "drawStarscape width height progress accentColour =
     [Save, FillStyle (Colour (str ''rgba(255, 255, 255, 0.9)''))]
     @ map (\<lambda>i.
         let x = js_rem (real i * 97) width;
             y = js_rem (real i * 47) height * (0.8 + 0.2 * sin (progress * 6 + real i));
             size = (sin (progress * 8 + real i) + 1) * 0.8 + 0.6
         in FillRect x y size size)
         [0..<120]
     @ [FillStyle (Colour (accentColour @ str ''88'')), BeginPath,
        Arc (width * 0.78) (height * 0.26) (60 + sin (progress * 4) * 12) 0 (pi * 2), Fill,
        Restore]"

definition drawIllustration ::
  "(nat \<Rightarrow> real) \<Rightarrow> real \<Rightarrow> real \<Rightarrow> scene_cue \<Rightarrow> real \<Rightarrow> canvas_call list" where
  "drawIllustration random width height scene sceneProgress =
     (if illustration scene = str ''sunrise''
        then drawSunrise width height sceneProgress (accent (palette scene))
      else if illustration scene = str ''cities''
        then drawCityLights random width height sceneProgress (accent (palette scene))
      else if illustration scene = str ''forest''
        then drawForestCanopy width height sceneProgress (accent (palette scene))
      else if illustration scene = str ''desert''
        then drawDesert width height sceneProgress (accent (palette scene))
      else if illustration scene = str ''oceans''
        then drawSea width height sceneProgress (accent (palette scene))
      else if illustration scene = str ''stars''
        then drawStarscape width height sceneProgress (accent (palette scene))
      else [])"

subsection \<open>The title card\<close>

text \<open>\<open>text.split(" ")\<close>: the pieces between the spaces (code unit 32), empty ones included.\<close>

fun splitSpace :: "js_string \<Rightarrow> js_string list" where
  "splitSpace [] = [[]]"
| "splitSpace (c # cs) =
     (if c = 32 then [] # splitSpace cs
      else (case splitSpace cs of [] \<Rightarrow> [[c]] | w # ws \<Rightarrow> (c # w) # ws))"

text \<open>\<open>trim\<close> removes the white space and line terminators of ECMAScript at both ends.\<close>

definition isWhiteSpace :: "nat \<Rightarrow> bool" where
  "isWhiteSpace c =
     (c \<in> {9, 10, 11, 12, 13, 32, 160, 5760, 8232, 8233, 8239, 8287, 12288, 65279}
      \<or> (8192 \<le> c \<and> c \<le> 8202))"

definition trim :: "js_string \<Rightarrow> js_string" where
  "trim s = rev (dropWhile isWhiteSpace (rev (dropWhile isWhiteSpace s)))"

text \<open>
  The \<open>forEach\<close> of \<open>wrapText\<close> over the remaining words, with the calls made so far, the
  current \<open>line\<close> and \<open>y\<close>. \<open>measureText\<close> gives the width that \<open>ctx.measureText\<close> reports in the
  font the context has.
\<close>

fun wrapLoop ::
  "(js_string \<Rightarrow> real) \<Rightarrow> real \<Rightarrow> real \<Rightarrow> real \<Rightarrow> js_string list \<Rightarrow>
   canvas_call list \<Rightarrow> js_string \<Rightarrow> real \<Rightarrow> canvas_call list \<times> js_string \<times> real" where
  "wrapLoop measureText x maxWidth lineHeight [] calls line y = (calls, line, y)"
| "wrapLoop measureText x maxWidth lineHeight (word # rest) calls line y =
     (let testLine = line @ word @ [32] in
      if measureText testLine > maxWidth \<and> line \<noteq> []
      then wrapLoop measureText x maxWidth lineHeight rest
             (calls @ [FillText line x y]) (word @ [32]) (y + lineHeight)
      else wrapLoop measureText x maxWidth lineHeight rest calls testLine y)"

definition wrapText ::
  "(js_string \<Rightarrow> real) \<Rightarrow> js_string \<Rightarrow> real \<Rightarrow> real \<Rightarrow> real \<Rightarrow> real \<Rightarrow> canvas_call list" where
  "wrapText measureText text x startY maxWidth lineHeight =
     (let (calls, line, y) =
            wrapLoop measureText x maxWidth lineHeight (splitSpace text) [] [] startY
      in calls @ [FillText (trim line) x y])"

definition titleOpacity :: "real \<Rightarrow> real" where
  "titleOpacity sceneProgress = min 1 (max 0 (sin (sceneProgress * pi)))"

definition drawTitleCard ::
  "(js_string \<Rightarrow> real) \<Rightarrow> real \<Rightarrow> scene_cue \<Rightarrow> real \<Rightarrow> canvas_call list" where
  "drawTitleCard measureText width scene sceneProgress =
     (let baseX = width * 0.64;
          baseY = 160;
          opacity = titleOpacity sceneProgress
      in [Save, GlobalAlpha opacity,
          FillStyle (Colour (str ''rgba(3, 9, 20, 0.4)'')),
          FillRect (baseX - 60) (baseY - 50) (width * 0.26) 240,
          FillStyle (Colour (str ''rgba(255, 255, 255, 0.85)'')),
          Font (str ''700 36px var(--font-arabic)''),
          FillText (title scene) baseX baseY,
          Font (str ''400 24px var(--font-arabic)''),
          FillStyle (Colour (str ''rgba(255, 255, 255, 0.75)'')),
          FillText (subtitle scene) baseX (baseY + 42)]
         @ wrapText measureText (description scene) baseX (baseY + 90) (width * 0.24) 30
         @ [Restore])"

subsection \<open>A whole frame\<close>

definition drawScene ::
  "(nat \<Rightarrow> real) \<Rightarrow> (js_string \<Rightarrow> real) \<Rightarrow> real \<Rightarrow> real \<Rightarrow> scene_cue \<Rightarrow> real \<Rightarrow> real \<Rightarrow>
   canvas_call list" where
  "drawScene random measureText width height scene sceneProgress globalProgress =
     (let backgroundGradient =
            LinearGradient 0 0 0 height
              [(0, pal_start (palette scene)), (1, pal_end (palette scene))];
          glowRadius = height * (0.45 + sin (globalProgress * pi * 2) * 0.03);
          glowGradient =
            RadialGradient (width * 0.5) (height * 0.52) (glowRadius * 0.2)
              (width * 0.5) (height * 0.53) glowRadius
              [(0, glow (palette scene)), (1, str ''rgba(0,0,0,0)'')]
      in [Save, ClearRect 0 0 width height,
          FillStyle backgroundGradient, FillRect 0 0 width height,
          FillStyle glowGradient, FillRect 0 0 width height]
         @ drawEarth width height scene sceneProgress globalProgress
         @ drawAtmosphericRings width height sceneProgress (accent (palette scene))
         @ drawIllustration random width height scene sceneProgress
         @ drawTitleCard measureText width scene sceneProgress
         @ [Restore])"

subsection \<open>What a frame paints, and under which alpha\<close>

text \<open>
  The calls that put pixels on the surface, each with the \<open>globalAlpha\<close> in effect:
  \<open>save\<close> and \<open>restore\<close> push and pop it, and an assignment outside \<open>[0, 1]\<close> is
  ignored by the context.
\<close>

fun paints :: "canvas_call \<Rightarrow> bool" where
  "paints (FillRect x y w h) = True"
| "paints (FillText t x y) = True"
| "paints Fill = True"
| "paints Stroke = True"
| "paints c = False"

fun painted :: "real \<Rightarrow> real list \<Rightarrow> canvas_call list \<Rightarrow> (real \<times> canvas_call) list" where
  "painted alpha saved [] = []"
| "painted alpha saved (Save # cs) = painted alpha (alpha # saved) cs"
| "painted alpha saved (Restore # cs) =
     (case saved of [] \<Rightarrow> painted alpha [] cs | a # older \<Rightarrow> painted a older cs)"
| "painted alpha saved (GlobalAlpha a # cs) =
     painted (if 0 \<le> a \<and> a \<le> 1 then a else alpha) saved cs"
| "painted alpha saved (c # cs) =
     (if paints c then (alpha, c) # painted alpha saved cs else painted alpha saved cs)"

text \<open>The building silhouettes of \<open>drawCityLights\<close> are its rectangles of width 18.\<close>

fun isBar :: "canvas_call \<Rightarrow> bool" where
  "isBar (FillRect x y w h) = (w = 18)"
| "isBar c = False"

text \<open>The text of a \<open>fillText\<close> call.\<close>

fun callText :: "canvas_call \<Rightarrow> js_string" where
  "callText (FillText t x y) = t"
| "callText c = []"

text \<open>The vertical position of a \<open>fillText\<close> call.\<close>

fun callY :: "canvas_call \<Rightarrow> real" where
  "callY (FillText t x y) = y"
| "callY c = 0"

section \<open>Runs of the engine\<close>

text \<open>Delivery of every stop event pending in \<open>s\<close>, oldest first.\<close>

definition deliverStops :: "engine \<Rightarrow> engine" where
  "deliverStops s = (fireStop ^^ length (stopQueue s)) s"

text \<open>
  The states the component can be in: from the first render, any handler or browser
  callback may run next, in any browser and at any timestamp.
\<close>

inductive reachable :: "scene_cue list \<Rightarrow> engine \<Rightarrow> bool" for scenes :: "scene_cue list" where
  r_init: "reachable scenes initialEngine"
| r_mount: "reachable scenes s \<Longrightarrow> mountEffect env scenes s = Inr s' \<Longrightarrow> reachable scenes s'"
| r_start: "reachable scenes s \<Longrightarrow> reachable scenes (startPlayback env record s)"
| r_stop: "reachable scenes s \<Longrightarrow> reachable scenes (stopPlayback s)"
| r_tick: "reachable scenes s \<Longrightarrow> tick env scenes timestamp s = Inr s' \<Longrightarrow> reachable scenes s'"
| r_stopped: "reachable scenes s \<Longrightarrow> reachable scenes (fireStop s)"
| r_data: "reachable scenes s \<Longrightarrow> reachable scenes (ondataavailable dataSize s)"
| r_unmount: "reachable scenes s \<Longrightarrow> reachable scenes (mountCleanup s)"
| r_commit: "reachable scenes s \<Longrightarrow> reachable scenes (commitVideoUrl s)"
| r_unmount_url: "reachable scenes s \<Longrightarrow> reachable scenes (videoUrlCleanup s)"

section \<open>Concrete inputs\<close>

text \<open>A scene of a given duration in seconds, and the catalog of three scenes of 4, 6 and 2 seconds.\<close>

definition sceneOfDuration :: "real \<Rightarrow> scene_cue" where
  "sceneOfDuration d =
     \<lparr>duration = d, title = [], subtitle = [], description = [],
      palette = \<lparr>pal_start = [], pal_end = [], glow = [], accent = []\<rparr>,
      illustration = []\<rparr>"

definition exampleScenes :: "scene_cue list" where
  "exampleScenes = [sceneOfDuration 4, sceneOfDuration 6, sceneOfDuration 2]"

text \<open>A browser with the canvas mounted and capture available.\<close>

definition readyBrowser :: browser where
  "readyBrowser =
     \<lparr>canvasMounted = True, context2d = True, windowDefined = True,
      mediaRecorderInWindow = True, captureStreamOk = True, recorderCtorThrows = False\<rparr>"

text \<open>The engine while recording, as left by a successful \<open>startPlayback(true)\<close> and a first tick at time 0.\<close>

definition recordingEngine :: engine where
  "recordingEngine =
     initialEngine\<lparr>animationRef := Some 1, startTimeRef := Some 0, playbackState := Rendering,
       recorderRef := Some \<lparr>rec_state = Recording, rec_stream = 0\<rparr>, streamRef := Some 0,
       rafQueue := [(1, 0)], nextHandle := 2, liveStreams := {0}, nextId := 1,
       canvas := Some (exampleScenes ! 0, 0, 0)\<rparr>"

text \<open>The engine during a preview, as left by \<open>startPlayback(false)\<close> and a first tick at time 0.\<close>

definition previewEngine :: engine where
  "previewEngine =
     initialEngine\<lparr>animationRef := Some 1, startTimeRef := Some 0, playbackState := Playing,
       rafQueue := [(1, 0)], nextHandle := 2, canvas := Some (exampleScenes ! 0, 0, 0)\<rparr>"

text \<open>A browser without \<open>MediaRecorder\<close>, and one whose recorder constructor throws.\<close>

definition noCaptureBrowser :: browser where
  "noCaptureBrowser = readyBrowser\<lparr>mediaRecorderInWindow := False\<rparr>"

definition throwingBrowser :: browser where
  "throwingBrowser = readyBrowser\<lparr>recorderCtorThrows := True\<rparr>"

text \<open>An engine whose recorder has been stopped already.\<close>

definition stoppedEngine :: engine where
  "stoppedEngine =
     recordingEngine\<lparr>recorderRef := Some \<lparr>rec_state = Inactive, rec_stream = 0\<rparr>\<rparr>"

text \<open>
  A recording started from the first render and stopped by the user twice before the
  recorder's stop event is delivered.
\<close>

definition doubleStopEngine :: engine where
  "doubleStopEngine = stopPlayback (stopPlayback (startPlayback readyBrowser True initialEngine))"

text \<open>
  After the double stop, a second recording is started and stopped, while the stop event
  of the first recorder is still pending.
\<close>

definition overlappingStops :: engine where
  "overlappingStops = stopPlayback (startPlayback readyBrowser True doubleStopEngine)"

text \<open>A sequence of animation frames at the given timestamps; an exception ends it.\<close>

fun ticks :: "browser \<Rightarrow> scene_cue list \<Rightarrow> real list \<Rightarrow> engine \<Rightarrow> error + engine" where
  "ticks env scenes [] s = Inr s"
| "ticks env scenes (timestamp # later) s =
     (case tick env scenes timestamp s of
        Inl e \<Rightarrow> Inl e
      | Inr s' \<Rightarrow> ticks env scenes later s')"

text \<open>Text metrics of a fixed-pitch font: ten units per code unit.\<close>

definition fixedPitch :: "js_string \<Rightarrow> real" where
  "fixedPitch s = 10 * real (length s)"

text \<open>A scene with the given illustration, and two sources of random numbers.\<close>

definition sceneWith :: "string \<Rightarrow> scene_cue" where
  "sceneWith kind = (sceneOfDuration 4)\<lparr>illustration := str kind\<rparr>"

definition allLit :: "nat \<Rightarrow> real" where
  "allLit k = 0.9"

definition noneLit :: "nat \<Rightarrow> real" where
  "noneLit k = 0.1"

definition brightLit :: "nat \<Rightarrow> real" where
  "brightLit k = 0.8"

section \<open>The timeline\<close>



lemma totalDurationMs_foldl:
  "foldl (\<lambda>acc scene. acc + duration scene * 1000) a xs = a + totalDurationMs xs"
  unfolding totalDurationMs_def
proof (induction xs arbitrary: a)
  case Nil
  show ?case by simp
next
  case (Cons x xs)
  have "foldl (\<lambda>acc scene. acc + duration scene * 1000) a (x # xs)
        = (a + duration x * 1000) + foldl (\<lambda>acc scene. acc + duration scene * 1000) 0 xs"
    using Cons.IH [of "a + duration x * 1000"] by simp
  moreover have "foldl (\<lambda>acc scene. acc + duration scene * 1000) 0 (x # xs)
        = duration x * 1000 + foldl (\<lambda>acc scene. acc + duration scene * 1000) 0 xs"
    using Cons.IH [of "duration x * 1000"] by simp
  ultimately show ?case by simp
qed

lemma totalDurationMs_Nil: "totalDurationMs [] = 0"
  by (simp add: totalDurationMs_def)

lemma totalDurationMs_Cons:
  "totalDurationMs (x # xs) = duration x * 1000 + totalDurationMs xs"
  using totalDurationMs_foldl [of "duration x * 1000" xs]
  by (simp add: totalDurationMs_def)

lemma totalDurationMs_append:
  "totalDurationMs (xs @ ys) = totalDurationMs xs + totalDurationMs ys"
  by (induction xs) (simp_all add: totalDurationMs_Nil totalDurationMs_Cons)

lemma totalDurationMs_take_Suc:
  "i < length xs \<Longrightarrow>
   totalDurationMs (take (Suc i) xs) = totalDurationMs (take i xs) + duration (xs ! i) * 1000"
  by (simp add: take_Suc_conv_app_nth totalDurationMs_append totalDurationMs_Cons
      totalDurationMs_Nil)

lemma resolveLoop_found:
  "cumulative \<le> elapsed \<Longrightarrow> elapsed < cumulative + totalDurationMs rest \<Longrightarrow>
   \<exists>k < length rest.
      resolveLoop rest elapsed i cumulative = (i + k, cumulative + totalDurationMs (take k rest)) \<and>
      cumulative + totalDurationMs (take k rest) \<le> elapsed \<and>
      elapsed < cumulative + totalDurationMs (take (Suc k) rest)"
proof (induction rest arbitrary: i cumulative)
  case Nil
  then show ?case by (simp add: totalDurationMs_Nil)
next
  case (Cons scene rest)
  show ?case
  proof (cases "elapsed < cumulative + duration scene * 1000")
    case True
    with Cons.prems show ?thesis
      by (intro exI [of _ 0]) (simp add: totalDurationMs_Nil totalDurationMs_Cons)
  next
    case False
    then have le: "cumulative + duration scene * 1000 \<le> elapsed" by simp
    have lt: "elapsed < cumulative + duration scene * 1000 + totalDurationMs rest"
      using Cons.prems(2) by (simp add: totalDurationMs_Cons)
    from Cons.IH [OF le lt, of "i + 1"] obtain k where k: "k < length rest"
      "resolveLoop rest elapsed (i + 1) (cumulative + duration scene * 1000) =
         (i + 1 + k, cumulative + duration scene * 1000 + totalDurationMs (take k rest))"
      "cumulative + duration scene * 1000 + totalDurationMs (take k rest) \<le> elapsed"
      "elapsed < cumulative + duration scene * 1000 + totalDurationMs (take (Suc k) rest)"
      by blast
    show ?thesis
      using False k
      by (intro exI [of _ "Suc k"]) (simp add: totalDurationMs_Cons Let_def)
  qed
qed

lemma windowStart_mono:
  assumes "\<forall>sc \<in> set scenes. 0 < duration sc" "i \<le> j" "j \<le> length scenes"
  shows "windowStart scenes i \<le> windowStart scenes j"
proof -
  have "take j scenes = take i scenes @ drop i (take j scenes)"
    using assms(2) by (metis append_take_drop_id min.absorb1 take_take)
  then have "windowStart scenes j = windowStart scenes i + totalDurationMs (drop i (take j scenes))"
    unfolding windowStart_def by (metis totalDurationMs_append)
  moreover have "0 \<le> totalDurationMs ys" if "set ys \<subseteq> set scenes" for ys
    using that assms(1)
    by (induction ys) (auto simp: totalDurationMs_Nil totalDurationMs_Cons intro!: add_nonneg_nonneg less_imp_le)
  moreover have "set (drop i (take j scenes)) \<subseteq> set scenes"
    by (meson set_drop_subset set_take_subset subset_trans)
  ultimately show ?thesis by fastforce
qed

lemma window_unique:
  assumes pos: "\<forall>sc \<in> set scenes. 0 < duration sc"
    and i: "i < length scenes" "windowStart scenes i \<le> e" "e < windowEnd scenes i"
    and j: "j < length scenes" "windowStart scenes j \<le> e" "e < windowEnd scenes j"
  shows "j = i"
proof (rule ccontr)
  assume "j \<noteq> i"
  then consider "Suc i \<le> j" | "Suc j \<le> i" by linarith
  then show False
  proof cases
    case 1
    have "windowEnd scenes i \<le> windowStart scenes j"
      using windowStart_mono [OF pos 1] j(1) by (simp add: windowEnd_def windowStart_def)
    with i(3) j(2) show False by simp
  next
    case 2
    have "windowEnd scenes j \<le> windowStart scenes i"
      using windowStart_mono [OF pos 2] i(1) by (simp add: windowEnd_def windowStart_def)
    with j(3) i(2) show False by simp
  qed
qed

lemma resolveLoop_window:
  assumes "0 \<le> e" "e < totalDurationMs scenes"
  shows "fst (resolveLoop scenes e 0 0) < length scenes"
    and "snd (resolveLoop scenes e 0 0) = windowStart scenes (fst (resolveLoop scenes e 0 0))"
    and "windowStart scenes (fst (resolveLoop scenes e 0 0)) \<le> e"
    and "e < windowEnd scenes (fst (resolveLoop scenes e 0 0))"
  using resolveLoop_found [of 0 e scenes 0] assms
  by (auto simp: windowStart_def windowEnd_def)

lemma exampleScenes_total: "totalDurationMs exampleScenes = 12000"
  by (simp add: exampleScenes_def sceneOfDuration_def totalDurationMs_def)

lemma exampleScenes_resolve: "resolveLoop exampleScenes 5000 0 0 = (1, 4000)"
  by (simp add: exampleScenes_def sceneOfDuration_def)

text \<open>
  Claim C2. In a tick whose elapsed time \<open>e\<close> lies in \<open>[0, total)\<close>, the loop of
  \<open>renderFrame\<close> selects an index \<open>i\<close> of the catalog whose window
  \<open>[windowStart i, windowEnd i)\<close> contains \<open>e\<close>, no other scene's window contains \<open>e\<close>,
  and the frame painted is scene \<open>i\<close> at
  \<open>sceneProgress = (e - windowStart i) / (duration i * 1000)\<close>, which lies in \<open>[0, 1)\<close>,
  and \<open>globalProgress = e / total\<close>. The catalog's durations are positive, as the data
  model requires. The example of the claim (durations 4, 6 and 2 seconds, 5000 ms
  elapsed: index 1, progress 1/6 and 5/12) is the instance that follows the theorem.
\<close>

theorem timeline_resolution_in_tick:
  assumes pos: "\<forall>sc \<in> set scenes. 0 < duration sc"
    and env: "canvasMounted env" "context2d env"
    and e: "e = timestamp - (case startTimeRef s of None \<Rightarrow> timestamp | Some t0 \<Rightarrow> t0)"
    and range: "0 \<le> e" "e < totalDurationMs scenes"
    and i: "i = fst (resolveLoop scenes e 0 0)"
    and sp: "sceneProgress = (e - windowStart scenes i) / (duration (scenes ! i) * 1000)"
  shows "i < length scenes \<and> windowStart scenes i \<le> e \<and> e < windowEnd scenes i \<and>
         (\<forall>j < length scenes. windowStart scenes j \<le> e \<and> e < windowEnd scenes j \<longrightarrow> j = i) \<and>
         0 \<le> sceneProgress \<and> sceneProgress < 1 \<and>
         (\<exists>s'. renderFrame env scenes captured timestamp s = Inr s' \<and>
               canvas s' = Some (scenes ! i, sceneProgress, e / totalDurationMs scenes))"
proof -
  note w = resolveLoop_window [OF range, folded i]
  have uniq: "\<forall>j < length scenes. windowStart scenes j \<le> e \<and> e < windowEnd scenes j \<longrightarrow> j = i"
    using window_unique [OF pos w(1) w(3) w(4)] by blast
  have d: "0 < duration (scenes ! i) * 1000"
    using pos w(1) by simp
  have "windowEnd scenes i = windowStart scenes i + duration (scenes ! i) * 1000"
    using totalDurationMs_take_Suc [OF w(1)] by (simp add: windowEnd_def windowStart_def)
  with w(3) w(4) d have prog: "0 \<le> sceneProgress" "sceneProgress < 1"
    by (simp_all add: sp)
  have rl: "resolveLoop scenes e 0 0 = (i, windowStart scenes i)"
    using w(2) i by (metis prod.collapse)
  have "\<exists>s'. renderFrame env scenes captured timestamp s = Inr s' \<and>
          canvas s' = Some (scenes ! i, sceneProgress, e / totalDurationMs scenes)"
  proof (cases "startTimeRef s")
    case None
    with e have e0: "e = 0" by simp
    show ?thesis
      using env range w(1) rl None e0 sp
      by (simp add: renderFrame_def Let_def sceneAt_def requestAnimationFrame_def
          drawSceneOn_def setActiveScene_def)
  next
    case (Some t0)
    with e have e1: "timestamp - t0 = e" by simp
    show ?thesis
      using env range w(1) rl Some e1 sp
      by (simp add: renderFrame_def Let_def sceneAt_def requestAnimationFrame_def
          drawSceneOn_def setActiveScene_def)
  qed
  with w(1) w(3) w(4) uniq prog show ?thesis by blast
qed

text \<open>The instance of the claim's example: three scenes of 4, 6 and 2 seconds, 5000 ms elapsed.\<close>

theorem timeline_resolution_example:
  "fst (resolveLoop exampleScenes 5000 0 0) = 1 \<and>
   (\<exists>s'. renderFrame readyBrowser exampleScenes 0 5000 (initialEngine\<lparr>startTimeRef := Some 0\<rparr>) = Inr s' \<and>
         canvas s' = Some (exampleScenes ! 1, 1 / 6, 5 / 12)) \<and>
   \<bar>(1 / 6 :: real) - 0.167\<bar> < 0.001 \<and> \<bar>(5 / 12 :: real) - 0.417\<bar> < 0.001"
proof -
  have pos: "\<forall>sc \<in> set exampleScenes. 0 < duration sc"
    by (simp add: exampleScenes_def sceneOfDuration_def)
  have ws: "windowStart exampleScenes (Suc 0) = 4000"
    by (simp add: windowStart_def exampleScenes_def sceneOfDuration_def totalDurationMs_def)
  have d: "duration (exampleScenes ! Suc 0) = 6"
    by (simp add: exampleScenes_def sceneOfDuration_def)
  have "\<exists>s'. renderFrame readyBrowser exampleScenes 0 5000 (initialEngine\<lparr>startTimeRef := Some 0\<rparr>) = Inr s' \<and>
         canvas s' = Some (exampleScenes ! 1, (5000 - windowStart exampleScenes 1) / (duration (exampleScenes ! 1) * 1000),
             5000 / totalDurationMs exampleScenes)"
    using timeline_resolution_in_tick [of exampleScenes readyBrowser 5000 5000
        "initialEngine\<lparr>startTimeRef := Some 0\<rparr>" 1
        "(5000 - windowStart exampleScenes 1) / (duration (exampleScenes ! 1) * 1000)" 0] pos
    by (simp add: exampleScenes_resolve exampleScenes_total readyBrowser_def initialEngine_def)
  then show ?thesis
    by (simp add: exampleScenes_resolve exampleScenes_total ws d)
qed

section \<open>Stop events and the final tick\<close>



lemma setVideoUrl_fields [simp]:
  "animationRef (setVideoUrl new s) = animationRef s"
  "startTimeRef (setVideoUrl new s) = startTimeRef s"
  "playbackState (setVideoUrl new s) = playbackState s"
  "activeScene (setVideoUrl new s) = activeScene s"
  "recorderRef (setVideoUrl new s) = recorderRef s"
  "recordedChunksRef (setVideoUrl new s) = recordedChunksRef s"
  "streamRef (setVideoUrl new s) = streamRef s"
  "rafQueue (setVideoUrl new s) = rafQueue s"
  "nextHandle (setVideoUrl new s) = nextHandle s"
  "stopQueue (setVideoUrl new s) = stopQueue s"
  "liveStreams (setVideoUrl new s) = liveStreams s"
  "nextId (setVideoUrl new s) = nextId s"
  "canvas (setVideoUrl new s) = canvas s"
  "notifications (setVideoUrl new s) = notifications s"
  "videoUrl (setVideoUrl new s) = new"
  "effectUrl (setVideoUrl new s) = effectUrl s"
  "liveUrls (setVideoUrl new s) = liveUrls s"
  by (simp_all add: setVideoUrl_def)

lemma onstop_fields:
  "stopQueue (onstop ev s) = stopQueue s"
  "recorderRef (onstop ev s) = None"
  "streamRef (onstop ev s) = None"
  "recordedChunksRef (onstop ev s) = []"
  "animationRef (onstop ev s) = animationRef s"
  "rafQueue (onstop ev s) = rafQueue s"
  "startTimeRef (onstop ev s) = startTimeRef s"
  "playbackState (onstop ev s) = (case continuation ev of None \<Rightarrow> playbackState s | Some st \<Rightarrow> st)"
  by (simp_all add: onstop_def Let_def split: option.splits)

lemma onstop_finalize:
  assumes "finalize ev"
  shows "videoUrl (onstop ev s) = Some (nextId s)" and "nextId s \<in> liveUrls (onstop ev s)"
  using assms by (auto simp: onstop_def Let_def setVideoUrl_def split: option.splits)

lemma onstop_no_finalize:
  assumes "\<not> finalize ev"
  shows "videoUrl (onstop ev s) = videoUrl s" and "liveUrls (onstop ev s) = liveUrls s"
  using assms by (auto simp: onstop_def Let_def split: option.splits)

lemma fireStop_Cons:
  "stopQueue s = ev # rest \<Longrightarrow> fireStop s = onstop ev (s\<lparr>stopQueue := rest\<rparr>)"
  by (simp add: fireStop_def)

lemma funpow_fireStop_last:
  "stopQueue s = q @ [ev] \<Longrightarrow>
   \<exists>t. (fireStop ^^ Suc (length q)) s = onstop ev t \<and> stopQueue t = []"
proof (induction q arbitrary: s)
  case Nil
  then show ?case
    by (intro exI [of _ "s\<lparr>stopQueue := []\<rparr>"]) (simp add: fireStop_def)
next
  case (Cons e q)
  have fs: "fireStop s = onstop e (s\<lparr>stopQueue := q @ [ev]\<rparr>)"
    using Cons.prems by (simp add: fireStop_def)
  have "stopQueue (fireStop s) = q @ [ev]"
    by (simp add: fs onstop_fields)
  from Cons.IH [OF this] obtain t where
    "(fireStop ^^ Suc (length q)) (fireStop s) = onstop ev t" "stopQueue t = []" by blast
  then show ?case
    by (intro exI [of _ t]) (simp add: funpow_swap1)
qed

lemma deliverStops_last:
  "stopQueue s = q @ [ev] \<Longrightarrow> \<exists>t. deliverStops s = onstop ev t \<and> stopQueue t = []"
  using funpow_fireStop_last [of s q ev] by (simp add: deliverStops_def)

lemma deliverStops_finalized:
  assumes "stopQueue s = q @ [\<lparr>finalize = True, continuation = Some st\<rparr>]"
  shows "playbackState (deliverStops s) = st"
    and "\<exists>u. videoUrl (deliverStops s) = Some u \<and> u \<in> liveUrls (deliverStops s)"
    and "recorderRef (deliverStops s) = None"
    and "streamRef (deliverStops s) = None"
    and "stopQueue (deliverStops s) = []"
proof -
  from deliverStops_last [OF assms] obtain t where
    t: "deliverStops s = onstop \<lparr>finalize = True, continuation = Some st\<rparr> t" "stopQueue t = []"
    by blast
  show "playbackState (deliverStops s) = st" by (simp add: t onstop_fields)
  show "\<exists>u. videoUrl (deliverStops s) = Some u \<and> u \<in> liveUrls (deliverStops s)"
    using onstop_finalize [of "\<lparr>finalize = True, continuation = Some st\<rparr>" t] by (simp add: t)
  show "recorderRef (deliverStops s) = None" by (simp add: t onstop_fields)
  show "streamRef (deliverStops s) = None" by (simp add: t onstop_fields)
  show "stopQueue (deliverStops s) = []" by (simp add: t onstop_fields)
qed

lemma clearAnimation_fields:
  "animationRef (clearAnimation s) = None"
  "rafQueue (clearAnimation s) = filter (\<lambda>(h, a). Some h \<noteq> animationRef s) (rafQueue s)"
  "startTimeRef (clearAnimation s) = startTimeRef s"
  "playbackState (clearAnimation s) = playbackState s"
  "activeScene (clearAnimation s) = activeScene s"
  "videoUrl (clearAnimation s) = videoUrl s"
  "recorderRef (clearAnimation s) = recorderRef s"
  "recordedChunksRef (clearAnimation s) = recordedChunksRef s"
  "streamRef (clearAnimation s) = streamRef s"
  "stopQueue (clearAnimation s) = stopQueue s"
  "liveStreams (clearAnimation s) = liveStreams s"
  "liveUrls (clearAnimation s) = liveUrls s"
  "nextId (clearAnimation s) = nextId s"
  "canvas (clearAnimation s) = canvas s"
  "notifications (clearAnimation s) = notifications s"
  by (auto simp: clearAnimation_def cancelAnimationFrame_def split: option.splits
      intro!: filter_cong)

lemma stopRecorder_active:
  assumes "recorderActive s"
  shows "\<exists>r. recorderRef s = Some r \<and>
     stopRecorder fin s = (Pending,
       s\<lparr>recorderRef := Some (r\<lparr>rec_state := Inactive\<rparr>),
         stopQueue := stopQueue s @ [\<lparr>finalize = fin, continuation = None\<rparr>]\<rparr>)"
  using assms by (auto simp: recorderActive_def stopRecorder_def split: option.splits)

lemma stopRecorder_then_active:
  assumes "recorderActive s"
  shows "\<exists>r. recorderRef s = Some r \<and>
     onSettled st (stopRecorder fin s) =
       s\<lparr>recorderRef := Some (r\<lparr>rec_state := Inactive\<rparr>),
         stopQueue := stopQueue s @ [\<lparr>finalize = fin, continuation = Some st\<rparr>]\<rparr>"
  using stopRecorder_active [OF assms, of fin] by auto

lemma stopRecorder_inactive:
  "\<not> recorderActive s \<Longrightarrow> stopRecorder fin s = (Resolved, s)"
  by (auto simp: recorderActive_def stopRecorder_def split: option.splits)

lemma renderFrame_finished:
  assumes "canvasMounted env" "context2d env" "scenes \<noteq> []"
    and "elapsed = timestamp - (case startTimeRef s of None \<Rightarrow> timestamp | Some t0 \<Rightarrow> t0)"
    and "elapsed \<ge> totalDurationMs scenes"
  shows "renderFrame env scenes captured timestamp s =
     (let s3 = (clearAnimation (drawSceneOn (last scenes) 1 1
                  (if startTimeRef s = None then s\<lparr>startTimeRef := Some timestamp\<rparr> else s)))
                \<lparr>startTimeRef := None\<rparr>
      in if recorderActive s3 then Inr (onSettled Completed (stopRecorder True s3))
         else Inr (s3\<lparr>playbackState := Completed\<rparr>))"
proof -
  have "sceneAt scenes (length scenes - 1) = Some (last scenes)"
    using assms(3) by (simp add: sceneAt_def last_conv_nth)
  moreover have "totalDurationMs scenes \<le>
      timestamp - (case startTimeRef (if startTimeRef s = None then s\<lparr>startTimeRef := Some timestamp\<rparr> else s)
                   of None \<Rightarrow> 0 | Some start \<Rightarrow> start)"
    using assms(4,5) by (cases "startTimeRef s") simp_all
  ultimately show ?thesis
    using assms(1,2) by (simp add: renderFrame_def Let_def)
qed

text \<open>
  Claim C3. A tick that observes \<open>elapsed \<ge> total\<close> (on a non-empty catalog) paints the
  last scene with both progress values 1, cancels the frame request held in
  \<open>animationRef\<close> and requests no other, and unsets the clock. With an active recorder
  it leaves the playback state as it is and queues the recorder's stop event with
  \<open>finalize\<close> set; once the pending stop events are delivered the state is
  \<open>completed\<close> and \<open>videoUrl\<close> holds a live object URL. Without an active recorder
  it sets \<open>completed\<close> at once and creates no URL.
\<close>

theorem final_tick_completes:
  assumes "canvasMounted env" "context2d env" "scenes \<noteq> []"
    and "elapsed = timestamp - (case startTimeRef s of None \<Rightarrow> timestamp | Some t0 \<Rightarrow> t0)"
    and "elapsed \<ge> totalDurationMs scenes"
  shows "\<exists>s'. renderFrame env scenes captured timestamp s = Inr s' \<and>
     canvas s' = Some (last scenes, 1, 1) \<and>
     animationRef s' = None \<and>
     rafQueue s' = filter (\<lambda>(h, a). Some h \<noteq> animationRef s) (rafQueue s) \<and>
     startTimeRef s' = None \<and>
     (recorderActive s \<longrightarrow>
        playbackState s' = playbackState s \<and> videoUrl s' = videoUrl s \<and>
        stopQueue s' = stopQueue s @ [\<lparr>finalize = True, continuation = Some Completed\<rparr>] \<and>
        playbackState (deliverStops s') = Completed \<and>
        (\<exists>u. videoUrl (deliverStops s') = Some u \<and> u \<in> liveUrls (deliverStops s'))) \<and>
     (\<not> recorderActive s \<longrightarrow>
        playbackState s' = Completed \<and> videoUrl s' = videoUrl s \<and>
        liveUrls s' = liveUrls s \<and> stopQueue s' = stopQueue s)"
proof -
  define s0 where "s0 = (if startTimeRef s = None then s\<lparr>startTimeRef := Some timestamp\<rparr> else s)"
  define s3 where "s3 = (clearAnimation (drawSceneOn (last scenes) 1 1 s0))\<lparr>startTimeRef := None\<rparr>"
  have rf: "renderFrame env scenes captured timestamp s =
      (if recorderActive s3 then Inr (onSettled Completed (stopRecorder True s3))
       else Inr (s3\<lparr>playbackState := Completed\<rparr>))"
    using renderFrame_finished [OF assms] by (simp add: s3_def s0_def Let_def)
  have act: "recorderActive s3 = recorderActive s"
    by (simp add: recorderActive_def s3_def s0_def clearAnimation_fields drawSceneOn_def)
  have s3: "canvas s3 = Some (last scenes, 1, 1)" "animationRef s3 = None"
    "rafQueue s3 = filter (\<lambda>(h, a). Some h \<noteq> animationRef s) (rafQueue s)"
    "startTimeRef s3 = None" "playbackState s3 = playbackState s" "videoUrl s3 = videoUrl s"
    "liveUrls s3 = liveUrls s" "stopQueue s3 = stopQueue s"
    by (simp_all add: s3_def s0_def clearAnimation_fields drawSceneOn_def)
  show ?thesis
  proof (cases "recorderActive s")
    case False
    with rf act have "renderFrame env scenes captured timestamp s = Inr (s3\<lparr>playbackState := Completed\<rparr>)"
      by simp
    with False s3 show ?thesis by simp
  next
    case True
    with act have a3: "recorderActive s3" by simp
    from stopRecorder_then_active [OF a3, of Completed True] obtain r where
      r: "onSettled Completed (stopRecorder True s3) =
          s3\<lparr>recorderRef := Some (r\<lparr>rec_state := Inactive\<rparr>),
             stopQueue := stopQueue s3 @ [\<lparr>finalize = True, continuation = Some Completed\<rparr>]\<rparr>"
      by blast
    define s' where "s' = onSettled Completed (stopRecorder True s3)"
    have rf': "renderFrame env scenes captured timestamp s = Inr s'"
      using rf a3 by (simp add: s'_def)
    have q: "stopQueue s' = stopQueue s @ [\<lparr>finalize = True, continuation = Some Completed\<rparr>]"
      by (simp add: s'_def r s3)
    have "canvas s' = Some (last scenes, 1, 1)" "animationRef s' = None"
      "rafQueue s' = filter (\<lambda>(h, a). Some h \<noteq> animationRef s) (rafQueue s)"
      "startTimeRef s' = None" "playbackState s' = playbackState s" "videoUrl s' = videoUrl s"
      by (simp_all add: s'_def r s3)
    with True rf' q deliverStops_finalized(1,2) [OF q] show ?thesis by simp
  qed
qed

text \<open>Both branches at 12000 ms on the three-scene catalog: while recording, and in a preview.\<close>

theorem final_tick_completes_witness:
  "recorderActive recordingEngine \<and>
   (\<exists>s'. renderFrame readyBrowser exampleScenes 0 12000 recordingEngine = Inr s' \<and>
      canvas s' = Some (last exampleScenes, 1, 1) \<and> animationRef s' = None \<and>
      rafQueue s' = [] \<and> startTimeRef s' = None \<and> playbackState s' = Rendering \<and>
      playbackState (deliverStops s') = Completed \<and>
      (\<exists>u. videoUrl (deliverStops s') = Some u \<and> u \<in> liveUrls (deliverStops s'))) \<and>
   \<not> recorderActive previewEngine \<and>
   (\<exists>s'. renderFrame readyBrowser exampleScenes 0 12000 previewEngine = Inr s' \<and>
      canvas s' = Some (last exampleScenes, 1, 1) \<and> animationRef s' = None \<and>
      rafQueue s' = [] \<and> startTimeRef s' = None \<and> playbackState s' = Completed \<and>
      videoUrl s' = None \<and> liveUrls s' = {})"
proof -
  have total: "(12000::real) \<ge> totalDurationMs exampleScenes"
    by (simp add: exampleScenes_total)
  have ne: "exampleScenes \<noteq> []"
    by (simp add: exampleScenes_def)
  have rec: "recorderActive recordingEngine"
    by (simp add: recorderActive_def recordingEngine_def initialEngine_def)
  have pre: "\<not> recorderActive previewEngine"
    by (simp add: recorderActive_def previewEngine_def initialEngine_def)
  have a: "\<exists>s'. renderFrame readyBrowser exampleScenes 0 12000 recordingEngine = Inr s' \<and>
      canvas s' = Some (last exampleScenes, 1, 1) \<and> animationRef s' = None \<and>
      rafQueue s' = [] \<and> startTimeRef s' = None \<and> playbackState s' = Rendering \<and>
      playbackState (deliverStops s') = Completed \<and>
      (\<exists>u. videoUrl (deliverStops s') = Some u \<and> u \<in> liveUrls (deliverStops s'))"
    using final_tick_completes [of readyBrowser exampleScenes 12000 12000 recordingEngine 0]
      total ne rec
    by (simp add: readyBrowser_def recordingEngine_def initialEngine_def) blast
  have b: "\<exists>s'. renderFrame readyBrowser exampleScenes 0 12000 previewEngine = Inr s' \<and>
      canvas s' = Some (last exampleScenes, 1, 1) \<and> animationRef s' = None \<and>
      rafQueue s' = [] \<and> startTimeRef s' = None \<and> playbackState s' = Completed \<and>
      videoUrl s' = None \<and> liveUrls s' = {}"
    using final_tick_completes [of readyBrowser exampleScenes 12000 12000 previewEngine 0]
      total ne pre
    by (simp add: readyBrowser_def previewEngine_def initialEngine_def) blast
  from rec pre a b show ?thesis by blast
qed

section \<open>Stopping\<close>

lemma stopPlayback_clears:
  "animationRef (stopPlayback s) = None"
  "rafQueue (stopPlayback s) = filter (\<lambda>(h, a). Some h \<noteq> animationRef s) (rafQueue s)"
  "startTimeRef (stopPlayback s) = None"
proof -
  define s2 where "s2 = (clearAnimation s)\<lparr>startTimeRef := None\<rparr>"
  have s2: "animationRef s2 = None" "startTimeRef s2 = None"
    "rafQueue s2 = filter (\<lambda>(h, a). Some h \<noteq> animationRef s) (rafQueue s)"
    by (simp_all add: s2_def clearAnimation_fields)
  have keep: "animationRef (onSettled Idle (stopRecorder True s2)) = animationRef s2 \<and>
      rafQueue (onSettled Idle (stopRecorder True s2)) = rafQueue s2 \<and>
      startTimeRef (onSettled Idle (stopRecorder True s2)) = startTimeRef s2"
  proof (cases "recorderActive s2")
    case True
    from stopRecorder_then_active [OF True, of Idle True] show ?thesis by auto
  next
    case False
    then show ?thesis by (simp add: stopRecorder_inactive)
  qed
  have sp: "stopPlayback s = (if playbackState s = Rendering then onSettled Idle (stopRecorder True s2)
       else s2\<lparr>playbackState := Idle\<rparr>)"
    by (simp add: stopPlayback_def s2_def Let_def)
  show "animationRef (stopPlayback s) = None" using keep s2 by (simp add: sp)
  show "rafQueue (stopPlayback s) = filter (\<lambda>(h, a). Some h \<noteq> animationRef s) (rafQueue s)"
    using keep s2 by (simp add: sp)
  show "startTimeRef (stopPlayback s) = None" using keep s2 by (simp add: sp)
qed

lemma stopPlayback_not_rendering:
  assumes "playbackState s \<noteq> Rendering"
  shows "stopPlayback s = (clearAnimation s)\<lparr>startTimeRef := None, playbackState := Idle\<rparr>"
  using assms by (simp add: stopPlayback_def Let_def)

lemma stopPlayback_rendering_active:
  assumes "playbackState s = Rendering" "recorderActive s"
  shows "playbackState (stopPlayback s) = Rendering"
    and "videoUrl (stopPlayback s) = videoUrl s"
    and "liveUrls (stopPlayback s) = liveUrls s"
    and "stopQueue (stopPlayback s) = stopQueue s @ [\<lparr>finalize = True, continuation = Some Idle\<rparr>]"
proof -
  define s2 where "s2 = (clearAnimation s)\<lparr>startTimeRef := None\<rparr>"
  have a2: "recorderActive s2"
    using assms(2) by (simp add: recorderActive_def s2_def clearAnimation_fields)
  from stopRecorder_then_active [OF a2, of Idle True] obtain r where
    r: "onSettled Idle (stopRecorder True s2) =
          s2\<lparr>recorderRef := Some (r\<lparr>rec_state := Inactive\<rparr>),
             stopQueue := stopQueue s2 @ [\<lparr>finalize = True, continuation = Some Idle\<rparr>]\<rparr>"
    by blast
  have sp: "stopPlayback s = onSettled Idle (stopRecorder True s2)"
    using assms(1) by (simp add: stopPlayback_def s2_def Let_def)
  show "playbackState (stopPlayback s) = Rendering"
    unfolding sp r using assms(1) by (simp add: s2_def clearAnimation_fields)
  show "videoUrl (stopPlayback s) = videoUrl s"
    unfolding sp r by (simp add: s2_def clearAnimation_fields)
  show "liveUrls (stopPlayback s) = liveUrls s"
    unfolding sp r by (simp add: s2_def clearAnimation_fields)
  show "stopQueue (stopPlayback s) = stopQueue s @ [\<lparr>finalize = True, continuation = Some Idle\<rparr>]"
    unfolding sp r by (simp add: s2_def clearAnimation_fields)
qed

text \<open>
  Claim C10. With no recorder handle, or with a recorder that is already inactive,
  \<open>stopRecorder\<close> returns a resolved promise and leaves the engine as it is; the
  teardown of the component, which calls it, then leaves the chunk buffer, the
  stream, the recorder handle, the playback state and the pending stop events alone.
\<close>

theorem stopRecorder_without_session:
  assumes "recorderRef s = None \<or> (\<exists>r. recorderRef s = Some r \<and> rec_state r = Inactive)"
  shows "stopRecorder fin s = (Resolved, s) \<and>
         recordedChunksRef (mountCleanup s) = recordedChunksRef s \<and>
         streamRef (mountCleanup s) = streamRef s \<and>
         liveStreams (mountCleanup s) = liveStreams s \<and>
         recorderRef (mountCleanup s) = recorderRef s \<and>
         playbackState (mountCleanup s) = playbackState s \<and>
         stopQueue (mountCleanup s) = stopQueue s"
proof -
  have inactive: "\<not> recorderActive t" if "recorderRef t = recorderRef s" for t
    using assms that by (auto simp: recorderActive_def)
  have a: "stopRecorder fin s = (Resolved, s)"
    using inactive [of s] by (simp add: stopRecorder_inactive)
  have "stopRecorder False (clearAnimation s) = (Resolved, clearAnimation s)"
    using inactive [of "clearAnimation s"] by (simp add: stopRecorder_inactive clearAnimation_fields)
  then have "mountCleanup s = (clearAnimation s)\<lparr>startTimeRef := None\<rparr>"
    by (simp add: mountCleanup_def Let_def)
  with a show ?thesis by (simp add: clearAnimation_fields)
qed

theorem stopRecorder_without_session_witness:
  "stopRecorder True initialEngine = (Resolved, initialEngine) \<and>
   recorderRef (mountCleanup initialEngine) = None \<and>
   stopRecorder True stoppedEngine = (Resolved, stoppedEngine) \<and>
   streamRef (mountCleanup stoppedEngine) = Some 0 \<and>
   playbackState (mountCleanup stoppedEngine) = Rendering"
proof -
  have a: "recorderRef initialEngine = None \<or>
      (\<exists>r. recorderRef initialEngine = Some r \<and> rec_state r = Inactive)"
    by (simp add: initialEngine_def)
  have b: "recorderRef stoppedEngine = None \<or>
      (\<exists>r. recorderRef stoppedEngine = Some r \<and> rec_state r = Inactive)"
    by (simp add: stoppedEngine_def)
  show ?thesis
    using stopRecorder_without_session [OF a, of True] stopRecorder_without_session [OF b, of True]
    by (simp add: initialEngine_def stoppedEngine_def recordingEngine_def)
qed

text \<open>
  What a stop request does when it finds the recorder active: \<open>stopPlayback\<close> while
  rendering, and the tick that reaches the end of the timeline, leave the playback
  state and \<open>videoUrl\<close> as they are and queue the recorder's stop event, to which the
  state change is attached. The delivery of that event stores the object URL of the
  recording and then sets the state.
\<close>

lemma stop_request_on_active_recorder:
  assumes "recorderActive s"
  shows "(playbackState s = Rendering \<longrightarrow>
            playbackState (stopPlayback s) = playbackState s \<and>
            videoUrl (stopPlayback s) = videoUrl s \<and>
            stopQueue (stopPlayback s) =
              stopQueue s @ [\<lparr>finalize = True, continuation = Some Idle\<rparr>] \<and>
            playbackState (deliverStops (stopPlayback s)) = Idle \<and>
            videoUrl (deliverStops (stopPlayback s)) \<noteq> None) \<and>
         (canvasMounted env \<and> context2d env \<and> scenes \<noteq> [] \<and>
          timestamp - (case startTimeRef s of None \<Rightarrow> timestamp | Some t0 \<Rightarrow> t0)
            \<ge> totalDurationMs scenes \<longrightarrow>
            (\<exists>s'. renderFrame env scenes captured timestamp s = Inr s' \<and>
               playbackState s' = playbackState s \<and> videoUrl s' = videoUrl s \<and>
               stopQueue s' =
                 stopQueue s @ [\<lparr>finalize = True, continuation = Some Completed\<rparr>] \<and>
               playbackState (deliverStops s') = Completed \<and>
               videoUrl (deliverStops s') \<noteq> None)) \<and>
         (\<forall>st t. videoUrl (onstop \<lparr>finalize = True, continuation = Some st\<rparr> t) = Some (nextId t) \<and>
            nextId t \<in> liveUrls (onstop \<lparr>finalize = True, continuation = Some st\<rparr> t) \<and>
            playbackState (onstop \<lparr>finalize = True, continuation = Some st\<rparr> t) = st)"
proof (intro conjI impI allI)
  assume r: "playbackState s = Rendering"
  note sp = stopPlayback_rendering_active [OF r assms]
  show "playbackState (stopPlayback s) = playbackState s" using sp(1) r by simp
  show "videoUrl (stopPlayback s) = videoUrl s" by (rule sp(2))
  show "stopQueue (stopPlayback s) = stopQueue s @ [\<lparr>finalize = True, continuation = Some Idle\<rparr>]"
    by (rule sp(4))
  show "playbackState (deliverStops (stopPlayback s)) = Idle"
    by (rule deliverStops_finalized(1) [OF sp(4)])
  show "videoUrl (deliverStops (stopPlayback s)) \<noteq> None"
    using deliverStops_finalized(2) [OF sp(4)] by auto
next
  assume h: "canvasMounted env \<and> context2d env \<and> scenes \<noteq> [] \<and>
          timestamp - (case startTimeRef s of None \<Rightarrow> timestamp | Some t0 \<Rightarrow> t0)
            \<ge> totalDurationMs scenes"
  define s0 where "s0 = (if startTimeRef s = None then s\<lparr>startTimeRef := Some timestamp\<rparr> else s)"
  define s3 where "s3 = (clearAnimation (drawSceneOn (last scenes) 1 1 s0))\<lparr>startTimeRef := None\<rparr>"
  have a3: "recorderActive s3"
    using assms by (simp add: recorderActive_def s3_def s0_def clearAnimation_fields drawSceneOn_def)
  have rf: "renderFrame env scenes captured timestamp s = Inr (onSettled Completed (stopRecorder True s3))"
    using renderFrame_finished [of env scenes _ timestamp s captured] h a3
    by (simp add: s3_def s0_def Let_def)
  from stopRecorder_then_active [OF a3, of Completed True] obtain r where
    r: "onSettled Completed (stopRecorder True s3) =
          s3\<lparr>recorderRef := Some (r\<lparr>rec_state := Inactive\<rparr>),
             stopQueue := stopQueue s3 @ [\<lparr>finalize = True, continuation = Some Completed\<rparr>]\<rparr>"
    by blast
  define s' where "s' = onSettled Completed (stopRecorder True s3)"
  have f: "playbackState s' = playbackState s" "videoUrl s' = videoUrl s"
    "stopQueue s' = stopQueue s @ [\<lparr>finalize = True, continuation = Some Completed\<rparr>]"
    unfolding s'_def r by (simp_all add: s3_def s0_def clearAnimation_fields drawSceneOn_def)
  have "playbackState (deliverStops s') = Completed" "videoUrl (deliverStops s') \<noteq> None"
    using deliverStops_finalized(1,2) [OF f(3)] by auto
  with rf f show "\<exists>s'. renderFrame env scenes captured timestamp s = Inr s' \<and>
               playbackState s' = playbackState s \<and> videoUrl s' = videoUrl s \<and>
               stopQueue s' =
                 stopQueue s @ [\<lparr>finalize = True, continuation = Some Completed\<rparr>] \<and>
               playbackState (deliverStops s') = Completed \<and>
               videoUrl (deliverStops s') \<noteq> None"
    by (simp add: s'_def)
next
  fix st t
  show "videoUrl (onstop \<lparr>finalize = True, continuation = Some st\<rparr> t) = Some (nextId t)"
    by (simp add: onstop_finalize)
  show "nextId t \<in> liveUrls (onstop \<lparr>finalize = True, continuation = Some st\<rparr> t)"
    by (simp add: onstop_finalize)
  show "playbackState (onstop \<lparr>finalize = True, continuation = Some st\<rparr> t) = st"
    by (simp add: onstop_fields)
qed

text \<open>
  \<open>stopPlayback\<close> cancels the frame request held in \<open>animationRef\<close> and unsets the
  clock. From \<open>playing\<close> it sets \<open>idle\<close> at once and creates no object URL. From
  \<open>rendering\<close>, when it finds the recorder active, the delivery of the pending stop
  events ends in \<open>idle\<close> with the recorder and stream handles cleared and the object
  URL of the recording in \<open>videoUrl\<close>.
\<close>

lemma stopPlayback_outcomes:
  "animationRef (stopPlayback s) = None \<and>
   rafQueue (stopPlayback s) = filter (\<lambda>(h, a). Some h \<noteq> animationRef s) (rafQueue s) \<and>
   startTimeRef (stopPlayback s) = None \<and>
   (playbackState s = Playing \<longrightarrow>
      playbackState (stopPlayback s) = Idle \<and> videoUrl (stopPlayback s) = videoUrl s \<and>
      liveUrls (stopPlayback s) = liveUrls s \<and> stopQueue (stopPlayback s) = stopQueue s) \<and>
   (playbackState s = Rendering \<and> recorderActive s \<longrightarrow>
      playbackState (stopPlayback s) = Rendering \<and>
      playbackState (deliverStops (stopPlayback s)) = Idle \<and>
      (\<exists>u. videoUrl (deliverStops (stopPlayback s)) = Some u \<and>
           u \<in> liveUrls (deliverStops (stopPlayback s))) \<and>
      recorderRef (deliverStops (stopPlayback s)) = None \<and>
      streamRef (deliverStops (stopPlayback s)) = None \<and>
      stopQueue (deliverStops (stopPlayback s)) = [])"
proof (intro conjI impI)
  show "animationRef (stopPlayback s) = None" by (rule stopPlayback_clears)
  show "rafQueue (stopPlayback s) = filter (\<lambda>(h, a). Some h \<noteq> animationRef s) (rafQueue s)"
    by (rule stopPlayback_clears)
  show "startTimeRef (stopPlayback s) = None" by (rule stopPlayback_clears)
next
  assume p: "playbackState s = Playing"
  then have sp: "stopPlayback s = (clearAnimation s)\<lparr>startTimeRef := None, playbackState := Idle\<rparr>"
    by (simp add: stopPlayback_not_rendering)
  show "playbackState (stopPlayback s) = Idle" by (simp add: sp)
  show "videoUrl (stopPlayback s) = videoUrl s" by (simp add: sp clearAnimation_fields)
  show "liveUrls (stopPlayback s) = liveUrls s" by (simp add: sp clearAnimation_fields)
  show "stopQueue (stopPlayback s) = stopQueue s" by (simp add: sp clearAnimation_fields)
next
  assume h: "playbackState s = Rendering \<and> recorderActive s"
  then have r: "playbackState s = Rendering" and a: "recorderActive s" by simp_all
  note sp = stopPlayback_rendering_active [OF r a]
  note d = deliverStops_finalized [OF sp(4)]
  show "playbackState (stopPlayback s) = Rendering" by (rule sp(1))
  show "playbackState (deliverStops (stopPlayback s)) = Idle" by (rule d(1))
  show "recorderRef (deliverStops (stopPlayback s)) = None" by (rule d(3))
  show "streamRef (deliverStops (stopPlayback s)) = None" by (rule d(4))
  show "stopQueue (deliverStops (stopPlayback s)) = []" by (rule d(5))
  show "\<exists>u. videoUrl (deliverStops (stopPlayback s)) = Some u \<and>
           u \<in> liveUrls (deliverStops (stopPlayback s))"
    by (rule d(2))
qed

section \<open>Object URLs\<close>

lemma requestAnimationFrame_urls:
  "videoUrl (requestAnimationFrame a s) = videoUrl s"
  "liveUrls (requestAnimationFrame a s) = liveUrls s"
  by (simp_all add: requestAnimationFrame_def)

lemma initialiseRecorder_urls:
  "videoUrl (snd (initialiseRecorder env s)) = videoUrl s"
  "liveUrls (snd (initialiseRecorder env s)) = liveUrls s"
  by (simp_all add: initialiseRecorder_def Let_def)

lemma startRecorder_urls:
  "videoUrl (startRecorder s) = videoUrl s" "liveUrls (startRecorder s) = liveUrls s"
  by (simp_all add: startRecorder_def split: option.splits)

lemma startPlayback_urls:
  assumes "canvasMounted env" "context2d env"
  shows "videoUrl (startPlayback env record s) = None"
    and "liveUrls (startPlayback env record s) = liveUrls s - set_option (videoUrl s)"
proof -
  define s3 where "s3 = setVideoUrl None
      (((clearAnimation s)\<lparr>startTimeRef := None\<rparr>)
         \<lparr>liveUrls := (case videoUrl s of None \<Rightarrow> liveUrls s
                        | Some previous \<Rightarrow> liveUrls s - {previous})\<rparr>)"
  have s3: "videoUrl s3 = None" "liveUrls s3 = liveUrls s - set_option (videoUrl s)"
    by (auto simp: s3_def clearAnimation_fields split: option.splits)
  have sp: "startPlayback env record s =
      (if record then
         (if \<not> fst (initialiseRecorder env s3) then snd (initialiseRecorder env s3)
          else requestAnimationFrame (activeScene (snd (initialiseRecorder env s3)))
                 (startRecorder ((snd (initialiseRecorder env s3))\<lparr>playbackState := Rendering\<rparr>)))
       else requestAnimationFrame (activeScene s3) (s3\<lparr>playbackState := Playing\<rparr>))"
    using assms
    by (simp add: startPlayback_def Let_def s3_def clearAnimation_fields case_prod_beta
        cong: option.case_cong)
  have v: "videoUrl ((snd (initialiseRecorder env s3))\<lparr>playbackState := Rendering\<rparr>) = None"
    "liveUrls ((snd (initialiseRecorder env s3))\<lparr>playbackState := Rendering\<rparr>) = liveUrls s3"
    by (simp_all add: initialiseRecorder_urls s3)
  show "videoUrl (startPlayback env record s) = None"
    by (simp add: sp requestAnimationFrame_urls startRecorder_urls initialiseRecorder_urls s3)
  show "liveUrls (startPlayback env record s) = liveUrls s - set_option (videoUrl s)"
    by (simp add: sp requestAnimationFrame_urls startRecorder_urls initialiseRecorder_urls s3)
qed

lemma startPlayback_initial: "startPlayback readyBrowser True initialEngine =
  initialEngine\<lparr>animationRef := Some 0, playbackState := Rendering,
    recorderRef := Some \<lparr>rec_state = Recording, rec_stream = 0\<rparr>, streamRef := Some 0,
    rafQueue := [(0, 0)], nextHandle := 1, liveStreams := {0}, nextId := 1\<rparr>"
  by (simp add: startPlayback_def initialiseRecorder_def startRecorder_def
      requestAnimationFrame_def clearAnimation_def setVideoUrl_def Let_def
      readyBrowser_def initialEngine_def)


lemma stopPlayback_started: "stopPlayback (startPlayback readyBrowser True initialEngine) =
  initialEngine\<lparr>animationRef := None, playbackState := Rendering,
    recorderRef := Some \<lparr>rec_state = Inactive, rec_stream = 0\<rparr>, streamRef := Some 0,
    rafQueue := [], nextHandle := 1, liveStreams := {0}, nextId := 1,
    stopQueue := [\<lparr>finalize = True, continuation = Some Idle\<rparr>]\<rparr>"
  unfolding startPlayback_initial
  by (simp add: stopPlayback_def stopRecorder_def clearAnimation_def cancelAnimationFrame_def
      Let_def initialEngine_def)


section \<open>Runs on the example catalog\<close>


lemma exampleScenes_nth:
  "sceneAt exampleScenes 0 = Some (sceneOfDuration 4)"
  "sceneAt exampleScenes (Suc 0) = Some (sceneOfDuration 6)"
  "duration (sceneOfDuration d) = d"
  by (simp_all add: sceneAt_def exampleScenes_def sceneOfDuration_def)

lemma exampleScenes_resolve_0: "resolveLoop exampleScenes 0 0 0 = (0, 0)"
  by (simp add: exampleScenes_def sceneOfDuration_def)

lemma exampleScenes_resolve_6000: "resolveLoop exampleScenes 6000 0 0 = (1, 4000)"
  by (simp add: exampleScenes_def sceneOfDuration_def)

lemma preview_started: "startPlayback readyBrowser False initialEngine =
  initialEngine\<lparr>animationRef := Some 0, playbackState := Playing,
    rafQueue := [(0, 0)], nextHandle := 1\<rparr>"
  by (simp add: startPlayback_def requestAnimationFrame_def clearAnimation_def setVideoUrl_def
      Let_def readyBrowser_def initialEngine_def)

lemma preview_tick_0:
  "tick readyBrowser exampleScenes 0 (startPlayback readyBrowser False initialEngine) =
   Inr (initialEngine\<lparr>animationRef := Some 1, startTimeRef := Some 0, playbackState := Playing,
          rafQueue := [(1, 0)], nextHandle := 2,
          canvas := Some (sceneOfDuration 4, 0, 0)\<rparr>)"
  unfolding preview_started
  by (simp add: tick_def renderFrame_def exampleScenes_total exampleScenes_resolve_0
      exampleScenes_nth requestAnimationFrame_def drawSceneOn_def Let_def readyBrowser_def
      initialEngine_def)

lemma previewEngine_run:
  "ticks readyBrowser exampleScenes [0] (startPlayback readyBrowser False initialEngine) =
   Inr previewEngine"
proof -
  have "previewEngine =
      initialEngine\<lparr>animationRef := Some 1, startTimeRef := Some 0, playbackState := Playing,
          rafQueue := [(1, 0)], nextHandle := 2,
          canvas := Some (sceneOfDuration 4, 0, 0)\<rparr>"
    by (simp add: previewEngine_def exampleScenes_def)
  then show ?thesis
    by (simp only: ticks.simps preview_tick_0 sum.case)
qed

lemma recordingEngine_run:
  "ticks readyBrowser exampleScenes [0] (startPlayback readyBrowser True initialEngine) =
   Inr recordingEngine"
proof -
  have r: "recordingEngine =
      initialEngine\<lparr>animationRef := Some 1, startTimeRef := Some 0, playbackState := Rendering,
         recorderRef := Some \<lparr>rec_state = Recording, rec_stream = 0\<rparr>, streamRef := Some 0,
         rafQueue := [(1, 0)], nextHandle := 2, liveStreams := {0}, nextId := 1,
         canvas := Some (sceneOfDuration 4, 0, 0)\<rparr>"
    by (simp add: recordingEngine_def exampleScenes_def)
  have t0: "tick readyBrowser exampleScenes 0
      (initialEngine\<lparr>animationRef := Some 0, playbackState := Rendering,
         recorderRef := Some \<lparr>rec_state = Recording, rec_stream = 0\<rparr>, streamRef := Some 0,
         rafQueue := [(0, 0)], nextHandle := 1, liveStreams := {0}, nextId := 1\<rparr>) =
      Inr recordingEngine"
    unfolding r
    by (simp add: tick_def renderFrame_def exampleScenes_total exampleScenes_resolve_0
        exampleScenes_nth requestAnimationFrame_def drawSceneOn_def Let_def readyBrowser_def
        initialEngine_def)
  show ?thesis
    by (simp only: ticks.simps startPlayback_initial t0 sum.case)
qed

lemma preview_tick_5000:
  "tick readyBrowser exampleScenes 5000
     (initialEngine\<lparr>animationRef := Some 1, startTimeRef := Some 0, playbackState := Playing,
          rafQueue := [(1, 0)], nextHandle := 2,
          canvas := Some (sceneOfDuration 4, 0, 0)\<rparr>) =
   Inr (initialEngine\<lparr>animationRef := Some 2, startTimeRef := Some 0, playbackState := Playing,
          activeScene := 1, rafQueue := [(2, 0)], nextHandle := 3,
          canvas := Some (sceneOfDuration 6, 1 / 6, 5 / 12), notifications := [1]\<rparr>)"
  by (simp add: tick_def renderFrame_def exampleScenes_total exampleScenes_resolve
      exampleScenes_nth requestAnimationFrame_def drawSceneOn_def setActiveScene_def Let_def
      readyBrowser_def initialEngine_def)

lemma preview_tick_6000:
  "tick readyBrowser exampleScenes 6000
     (initialEngine\<lparr>animationRef := Some 2, startTimeRef := Some 0, playbackState := Playing,
          activeScene := 1, rafQueue := [(2, 0)], nextHandle := 3,
          canvas := Some (sceneOfDuration 6, 1 / 6, 5 / 12), notifications := [1]\<rparr>) =
   Inr (initialEngine\<lparr>animationRef := Some 3, startTimeRef := Some 0, playbackState := Playing,
          activeScene := 1, rafQueue := [(3, 0)], nextHandle := 4,
          canvas := Some (sceneOfDuration 6, 1 / 3, 1 / 2), notifications := [1, 1]\<rparr>)"
  by (simp add: tick_def renderFrame_def exampleScenes_total exampleScenes_resolve_6000
      exampleScenes_nth requestAnimationFrame_def drawSceneOn_def setActiveScene_def Let_def
      readyBrowser_def initialEngine_def)

text \<open>
  Claim C9 says that a tick below the total duration notifies the active-scene
  indicator only when the resolved index differs from the indicated one. The running
  \<open>renderFrame\<close> compares the resolved index with the \<open>activeScene\<close> it closed over
  when playback started, not with the current one. On the three-scene catalog, a
  preview started at scene 0 and ticked at 0 and 5000 ms indicates scene 1; the tick
  at 6000 ms resolves scene 1 again and still calls \<open>setActiveScene(1)\<close>.
\<close>

theorem redundant_scene_notification:
  "\<exists>s1 s2. ticks readyBrowser exampleScenes [0, 5000]
             (startPlayback readyBrowser False initialEngine) = Inr s1 \<and>
     activeScene s1 = 1 \<and> notifications s1 = [1] \<and>
     fst (resolveLoop exampleScenes 6000 0 0) = activeScene s1 \<and>
     tick readyBrowser exampleScenes 6000 s1 = Inr s2 \<and>
     activeScene s2 = 1 \<and> notifications s2 = [1, 1]"
proof -
  define s1 where "s1 = initialEngine\<lparr>animationRef := Some 2, startTimeRef := Some 0,
      playbackState := Playing, activeScene := 1, rafQueue := [(2, 0)], nextHandle := 3,
      canvas := Some (sceneOfDuration 6, 1 / 6, 5 / 12), notifications := [1]\<rparr>"
  define s2 where "s2 = initialEngine\<lparr>animationRef := Some 3, startTimeRef := Some 0,
      playbackState := Playing, activeScene := 1, rafQueue := [(3, 0)], nextHandle := 4,
      canvas := Some (sceneOfDuration 6, 1 / 3, 1 / 2), notifications := [1, 1]\<rparr>"
  have run: "ticks readyBrowser exampleScenes [0, 5000]
      (startPlayback readyBrowser False initialEngine) = Inr s1"
    unfolding s1_def by (simp only: ticks.simps preview_tick_0 preview_tick_5000 sum.case)
  have again: "tick readyBrowser exampleScenes 6000 s1 = Inr s2"
    unfolding s1_def s2_def by (rule preview_tick_6000)
  have fields: "activeScene s1 = 1" "notifications s1 = [1]" "activeScene s2 = 1"
    "notifications s2 = [1, 1]"
    by (simp_all add: s1_def s2_def)
  have "fst (resolveLoop exampleScenes 6000 0 0) = activeScene s1"
    by (simp add: exampleScenes_resolve_6000 fields)
  with run again fields show ?thesis by blast
qed

lemma throwing_start:
  "startPlayback throwingBrowser True initialEngine =
     initialEngine\<lparr>playbackState := Error, liveStreams := {0}, nextId := 1\<rparr>"
  by (simp add: startPlayback_def initialiseRecorder_def clearAnimation_def setVideoUrl_def
      Let_def throwingBrowser_def readyBrowser_def initialEngine_def)

lemma noCapture_start:
  "startPlayback noCaptureBrowser True initialEngine = initialEngine\<lparr>playbackState := Error\<rparr>"
  by (simp add: startPlayback_def initialiseRecorder_def clearAnimation_def setVideoUrl_def
      Let_def noCaptureBrowser_def readyBrowser_def initialEngine_def)

text \<open>
  Claim C1 says that a failed capture initialisation in \<open>startPlayback(true)\<close> ends in
  the \<open>error\<close> state with no frame requested, no recorder or stream handle, and the
  stream acquired so far released. Without \<open>MediaRecorder\<close> that is what happens. When
  the recorder constructor throws, the state is \<open>error\<close>, no frame is requested and both
  handles stay empty, but the stream that \<open>captureStream\<close> returned keeps its live
  track: nothing stops it.
\<close>

theorem failed_encoder_keeps_stream:
  "playbackState (startPlayback noCaptureBrowser True initialEngine) = Error \<and>
   rafQueue (startPlayback noCaptureBrowser True initialEngine) = [] \<and>
   recorderRef (startPlayback noCaptureBrowser True initialEngine) = None \<and>
   streamRef (startPlayback noCaptureBrowser True initialEngine) = None \<and>
   liveStreams (startPlayback noCaptureBrowser True initialEngine) = {} \<and>
   playbackState (startPlayback throwingBrowser True initialEngine) = Error \<and>
   rafQueue (startPlayback throwingBrowser True initialEngine) = [] \<and>
   recorderRef (startPlayback throwingBrowser True initialEngine) = None \<and>
   streamRef (startPlayback throwingBrowser True initialEngine) = None \<and>
   liveStreams (startPlayback throwingBrowser True initialEngine) = {0}"
  unfolding throwing_start noCapture_start by (simp add: initialEngine_def)

section \<open>Stop requests while a stop event is pending\<close>

lemma doubleStopEngine_eq: "doubleStopEngine =
  initialEngine\<lparr>playbackState := Idle,
    recorderRef := Some \<lparr>rec_state = Inactive, rec_stream = 0\<rparr>, streamRef := Some 0,
    nextHandle := 1, liveStreams := {0}, nextId := 1,
    stopQueue := [\<lparr>finalize = True, continuation = Some Idle\<rparr>]\<rparr>"
  unfolding doubleStopEngine_def stopPlayback_started
  by (simp add: stopPlayback_def stopRecorder_def clearAnimation_def Let_def initialEngine_def)

lemma doubleStopEngine_delivered: "fireStop doubleStopEngine =
  initialEngine\<lparr>playbackState := Idle, nextHandle := 1, nextId := 2,
    videoUrl := Some 1, liveUrls := {1}\<rparr>"
  unfolding doubleStopEngine_eq
  by (simp add: fireStop_def onstop_def setVideoUrl_def Let_def initialEngine_def)

text \<open>
  Claim C5 says that whenever a capture session is being stopped the playback state
  changes only after the recorder's stop callback has fired. A recording is started
  and the user stops it: the state stays \<open>rendering\<close>, the recorder is inactive and its
  stop event is pending. The stop control is still enabled; a second \<open>stopPlayback\<close>
  finds the recorder inactive, \<open>stopRecorder\<close> returns a resolved promise and the
  state is \<open>idle\<close> at once, with the stop event still pending and no object URL yet.
  The URL appears only when the event is delivered.
\<close>

theorem second_stop_sets_idle_early:
  "playbackState (stopPlayback (startPlayback readyBrowser True initialEngine)) = Rendering \<and>
   \<not> recorderActive (stopPlayback (startPlayback readyBrowser True initialEngine)) \<and>
   stopQueue (stopPlayback (startPlayback readyBrowser True initialEngine)) =
     [\<lparr>finalize = True, continuation = Some Idle\<rparr>] \<and>
   playbackState doubleStopEngine = Idle \<and>
   stopQueue doubleStopEngine = [\<lparr>finalize = True, continuation = Some Idle\<rparr>] \<and>
   videoUrl doubleStopEngine = None \<and>
   liveUrls doubleStopEngine = {} \<and>
   videoUrl (fireStop doubleStopEngine) = Some 1"
proof -
  have a: "videoUrl (fireStop doubleStopEngine) = Some 1"
    unfolding doubleStopEngine_delivered by simp
  have b: "playbackState doubleStopEngine = Idle"
    "stopQueue doubleStopEngine = [\<lparr>finalize = True, continuation = Some Idle\<rparr>]"
    "videoUrl doubleStopEngine = None" "liveUrls doubleStopEngine = {}"
    unfolding doubleStopEngine_eq by (simp_all add: initialEngine_def)
  have c: "playbackState (stopPlayback (startPlayback readyBrowser True initialEngine)) = Rendering"
    "\<not> recorderActive (stopPlayback (startPlayback readyBrowser True initialEngine))"
    "stopQueue (stopPlayback (startPlayback readyBrowser True initialEngine)) =
       [\<lparr>finalize = True, continuation = Some Idle\<rparr>]"
    unfolding stopPlayback_started by (simp_all add: recorderActive_def)
  from a b c show ?thesis by simp
qed

lemma recording_tick_12000:
  "tick readyBrowser exampleScenes 12000 recordingEngine =
   Inr (initialEngine\<lparr>playbackState := Rendering,
          recorderRef := Some \<lparr>rec_state = Inactive, rec_stream = 0\<rparr>, streamRef := Some 0,
          nextHandle := 2, liveStreams := {0}, nextId := 1,
          canvas := Some (sceneOfDuration 2, 1, 1),
          stopQueue := [\<lparr>finalize = True, continuation = Some Completed\<rparr>]\<rparr>)"
proof -
  have last: "sceneAt exampleScenes (length exampleScenes - Suc 0) = Some (sceneOfDuration 2)"
    by (simp add: sceneAt_def exampleScenes_def)
  show ?thesis
    by (simp add: tick_def renderFrame_def exampleScenes_total last drawSceneOn_def
        clearAnimation_def cancelAnimationFrame_def recorderActive_def stopRecorder_def
        Let_def readyBrowser_def recordingEngine_def initialEngine_def)
qed

lemma stop_after_final_tick:
  "stopPlayback
     (initialEngine\<lparr>playbackState := Rendering,
          recorderRef := Some \<lparr>rec_state = Inactive, rec_stream = 0\<rparr>, streamRef := Some 0,
          nextHandle := 2, liveStreams := {0}, nextId := 1,
          canvas := Some (sceneOfDuration 2, 1, 1),
          stopQueue := [\<lparr>finalize = True, continuation = Some Completed\<rparr>]\<rparr>) =
   initialEngine\<lparr>playbackState := Idle,
          recorderRef := Some \<lparr>rec_state = Inactive, rec_stream = 0\<rparr>, streamRef := Some 0,
          nextHandle := 2, liveStreams := {0}, nextId := 1,
          canvas := Some (sceneOfDuration 2, 1, 1),
          stopQueue := [\<lparr>finalize = True, continuation = Some Completed\<rparr>]\<rparr>"
  by (simp add: stopPlayback_def stopRecorder_def clearAnimation_def Let_def initialEngine_def)

lemma stop_after_final_tick_delivered:
  "fireStop
     (initialEngine\<lparr>playbackState := Idle,
          recorderRef := Some \<lparr>rec_state = Inactive, rec_stream = 0\<rparr>, streamRef := Some 0,
          nextHandle := 2, liveStreams := {0}, nextId := 1,
          canvas := Some (sceneOfDuration 2, 1, 1),
          stopQueue := [\<lparr>finalize = True, continuation = Some Completed\<rparr>]\<rparr>) =
   initialEngine\<lparr>playbackState := Completed, nextHandle := 2, nextId := 2,
          canvas := Some (sceneOfDuration 2, 1, 1), videoUrl := Some 1, liveUrls := {1}\<rparr>"
  by (simp add: fireStop_def onstop_def setVideoUrl_def Let_def initialEngine_def)

text \<open>
  Claim C6 says that \<open>stopPlayback\<close> from \<open>rendering\<close> finalizes the capture session and
  settles into \<open>idle\<close> with exactly one artifact. From \<open>playing\<close>, and from \<open>rendering\<close>
  with the recorder still active, it does. A recording of the three-scene catalog
  reaches the end of the timeline at 12000 ms: the finishing tick stops the recorder
  and leaves the state \<open>rendering\<close> until the stop event. If the user stops now,
  \<open>stopPlayback\<close> finds the recorder inactive and sets \<open>idle\<close> at once with no object
  URL; the stop event of the finishing tick then stores the URL and sets \<open>completed\<close>,
  which is where the run settles.
\<close>

theorem stop_after_final_tick_ends_completed:
  "\<exists>s1. ticks readyBrowser exampleScenes [0, 12000]
            (startPlayback readyBrowser True initialEngine) = Inr s1 \<and>
     playbackState s1 = Rendering \<and> \<not> recorderActive s1 \<and>
     playbackState (stopPlayback s1) = Idle \<and>
     videoUrl (stopPlayback s1) = None \<and>
     stopQueue (stopPlayback s1) = [\<lparr>finalize = True, continuation = Some Completed\<rparr>] \<and>
     playbackState (deliverStops (stopPlayback s1)) = Completed \<and>
     videoUrl (deliverStops (stopPlayback s1)) = Some 1 \<and>
     stopQueue (deliverStops (stopPlayback s1)) = []"
proof -
  define s1 where "s1 = initialEngine\<lparr>playbackState := Rendering,
          recorderRef := Some \<lparr>rec_state = Inactive, rec_stream = 0\<rparr>, streamRef := Some 0,
          nextHandle := 2, liveStreams := {0}, nextId := 1,
          canvas := Some (sceneOfDuration 2, 1, 1),
          stopQueue := [\<lparr>finalize = True, continuation = Some Completed\<rparr>]\<rparr>"
  define s2 where "s2 = initialEngine\<lparr>playbackState := Idle,
          recorderRef := Some \<lparr>rec_state = Inactive, rec_stream = 0\<rparr>, streamRef := Some 0,
          nextHandle := 2, liveStreams := {0}, nextId := 1,
          canvas := Some (sceneOfDuration 2, 1, 1),
          stopQueue := [\<lparr>finalize = True, continuation = Some Completed\<rparr>]\<rparr>"
  define s3 where "s3 = initialEngine\<lparr>playbackState := Completed, nextHandle := 2, nextId := 2,
          canvas := Some (sceneOfDuration 2, 1, 1), videoUrl := Some 1, liveUrls := {1}\<rparr>"
  have t0: "tick readyBrowser exampleScenes 0 (startPlayback readyBrowser True initialEngine)
      = Inr recordingEngine"
    using recordingEngine_run by (simp split: sum.splits)
  have run: "ticks readyBrowser exampleScenes [0, 12000]
      (startPlayback readyBrowser True initialEngine) = Inr s1"
    unfolding s1_def by (simp only: ticks.simps t0 recording_tick_12000 sum.case)
  have stop: "stopPlayback s1 = s2"
    unfolding s1_def s2_def by (rule stop_after_final_tick)
  have q: "stopQueue s2 = [\<lparr>finalize = True, continuation = Some Completed\<rparr>]"
    by (simp add: s2_def)
  have "deliverStops s2 = fireStop s2"
    by (simp add: deliverStops_def q)
  also have "\<dots> = s3"
    unfolding s2_def s3_def by (rule stop_after_final_tick_delivered)
  finally have del: "deliverStops s2 = s3" .
  have f: "playbackState s1 = Rendering" "\<not> recorderActive s1" "playbackState s2 = Idle"
    "videoUrl s2 = None" "playbackState s3 = Completed" "videoUrl s3 = Some 1"
    "stopQueue s3 = []"
    by (simp_all add: s1_def s2_def s3_def recorderActive_def initialEngine_def)
  show ?thesis
    using run f q by (intro exI [of _ s1]) (simp add: stop del)
qed

lemma restarted_after_double_stop:
  "startPlayback readyBrowser True doubleStopEngine =
   initialEngine\<lparr>animationRef := Some 1, playbackState := Rendering,
     recorderRef := Some \<lparr>rec_state = Recording, rec_stream = 1\<rparr>, streamRef := Some 1,
     rafQueue := [(1, 0)], nextHandle := 2, liveStreams := {0, 1}, nextId := 2,
     stopQueue := [\<lparr>finalize = True, continuation = Some Idle\<rparr>]\<rparr>"
  unfolding doubleStopEngine_eq
  by (simp add: startPlayback_def initialiseRecorder_def startRecorder_def
      requestAnimationFrame_def clearAnimation_def setVideoUrl_def Let_def
      readyBrowser_def initialEngine_def insert_commute)

lemma overlappingStops_eq:
  "overlappingStops =
   initialEngine\<lparr>playbackState := Rendering,
     recorderRef := Some \<lparr>rec_state = Inactive, rec_stream = 1\<rparr>, streamRef := Some 1,
     nextHandle := 2, liveStreams := {0, 1}, nextId := 2,
     stopQueue := [\<lparr>finalize = True, continuation = Some Idle\<rparr>,
                   \<lparr>finalize = True, continuation = Some Idle\<rparr>]\<rparr>"
  unfolding overlappingStops_def restarted_after_double_stop
  by (simp add: stopPlayback_def stopRecorder_def clearAnimation_def cancelAnimationFrame_def
      Let_def initialEngine_def)

lemma first_stop_delivered:
  "fireStop overlappingStops =
   initialEngine\<lparr>playbackState := Idle, nextHandle := 2, liveStreams := {0}, nextId := 3,
     videoUrl := Some 2, liveUrls := {2},
     stopQueue := [\<lparr>finalize = True, continuation = Some Idle\<rparr>]\<rparr>"
  unfolding overlappingStops_eq
  by (auto simp: fireStop_def onstop_def setVideoUrl_def Let_def initialEngine_def)

lemma first_stop_committed:
  "commitVideoUrl (fireStop overlappingStops) =
   initialEngine\<lparr>playbackState := Idle, nextHandle := 2, liveStreams := {0}, nextId := 3,
     videoUrl := Some 2, effectUrl := Some 2, liveUrls := {2},
     stopQueue := [\<lparr>finalize = True, continuation = Some Idle\<rparr>]\<rparr>"
  unfolding first_stop_delivered
  by (simp add: commitVideoUrl_def initialEngine_def)

lemma second_stop_delivered:
  "fireStop (commitVideoUrl (fireStop overlappingStops)) =
   initialEngine\<lparr>playbackState := Idle, nextHandle := 2, liveStreams := {0}, nextId := 4,
     videoUrl := Some 3, effectUrl := Some 2, liveUrls := {2, 3}\<rparr>"
  unfolding first_stop_committed
  by (auto simp: fireStop_def onstop_def setVideoUrl_def Let_def initialEngine_def)

lemma both_stops_delivered:
  "fireStop (fireStop overlappingStops) =
   initialEngine\<lparr>playbackState := Idle, nextHandle := 2, liveStreams := {0}, nextId := 4,
     videoUrl := Some 3, liveUrls := {2, 3}\<rparr>"
  unfolding first_stop_delivered
  by (auto simp: fireStop_def onstop_def setVideoUrl_def Let_def initialEngine_def)

lemma both_stops_committed:
  "commitVideoUrl (fireStop (fireStop overlappingStops)) =
   initialEngine\<lparr>playbackState := Idle, nextHandle := 2, liveStreams := {0}, nextId := 4,
     videoUrl := Some 3, effectUrl := Some 3, liveUrls := {2, 3}\<rparr>"
  unfolding both_stops_delivered
  by (simp add: commitVideoUrl_def initialEngine_def)

lemma overlappingStops_reachable:
  "reachable scenes (fireStop (commitVideoUrl (fireStop overlappingStops)))"
  "reachable scenes (commitVideoUrl (fireStop (fireStop overlappingStops)))"
proof -
  have "reachable scenes overlappingStops"
    unfolding overlappingStops_def doubleStopEngine_def
    by (rule reachable.r_stop, rule reachable.r_start, rule reachable.r_stop,
        rule reachable.r_stop, rule reachable.r_start, rule reachable.r_init)
  then have f: "reachable scenes (fireStop overlappingStops)"
    by (rule reachable.r_stopped)
  show "reachable scenes (fireStop (commitVideoUrl (fireStop overlappingStops)))"
    by (rule reachable.r_stopped, rule reachable.r_commit, rule f)
  show "reachable scenes (commitVideoUrl (fireStop (fireStop overlappingStops)))"
    by (rule reachable.r_commit, rule reachable.r_stopped, rule f)
qed

text \<open>
  Claim C4 says that at every instant at most one object URL is alive, the previous one
  being released before a new one replaces it. \<open>startPlayback\<close> does release the URL it
  finds. The \<open>onstop\<close> handler does not: it creates the new URL and stores it, and the
  URL that \<open>videoUrl\<close> held is revoked only by the cleanup of the effect at the next
  commit. After a double stop a second recording can start while the stop event of the
  first recorder is pending; both recordings are then finalized in turn. When the
  second stop event is delivered \<open>videoUrl\<close> holds URL 2, and the handler leaves URLs 2
  and 3 alive together. If no commit ran between the two events, URL 2 stays alive
  after the commit as well.
\<close>

theorem overlapping_recordings_two_urls:
  "videoUrl (commitVideoUrl (fireStop overlappingStops)) = Some 2 \<and>
   liveUrls (commitVideoUrl (fireStop overlappingStops)) = {2} \<and>
   videoUrl (fireStop (commitVideoUrl (fireStop overlappingStops))) = Some 3 \<and>
   liveUrls (fireStop (commitVideoUrl (fireStop overlappingStops))) = {2, 3} \<and>
   card (liveUrls (fireStop (commitVideoUrl (fireStop overlappingStops)))) = 2 \<and>
   liveUrls (commitVideoUrl (fireStop (fireStop overlappingStops))) = {2, 3}"
proof -
  have a: "videoUrl (commitVideoUrl (fireStop overlappingStops)) = Some 2"
    "liveUrls (commitVideoUrl (fireStop overlappingStops)) = {2}"
    unfolding first_stop_committed by simp_all
  have b: "videoUrl (fireStop (commitVideoUrl (fireStop overlappingStops))) = Some 3"
    "liveUrls (fireStop (commitVideoUrl (fireStop overlappingStops))) = {2, 3}"
    unfolding second_stop_delivered by simp_all
  have c: "liveUrls (commitVideoUrl (fireStop (fireStop overlappingStops))) = {2, 3}"
    unfolding both_stops_committed by simp
  have d: "card (liveUrls (fireStop (commitVideoUrl (fireStop overlappingStops)))) = 2"
    unfolding b by simp
  from a b c d show ?thesis by simp
qed

section \<open>The title card\<close>


lemma wrapLoop_calls:
  "\<exists>new. fst (wrapLoop measureText x maxWidth lineHeight words calls line y) = calls @ new \<and>
         (\<forall>c \<in> set new. \<exists>t y'. c = FillText t x y')"
proof (induction words arbitrary: calls line y)
  case Nil
  show ?case by simp
next
  case (Cons word rest)
  show ?case
  proof (cases "measureText (line @ word @ [32]) > maxWidth \<and> line \<noteq> []")
    case True
    from Cons.IH [of "calls @ [FillText line x y]" "word @ [32]" "y + lineHeight"]
    obtain new where
      "fst (wrapLoop measureText x maxWidth lineHeight rest (calls @ [FillText line x y])
              (word @ [32]) (y + lineHeight)) = (calls @ [FillText line x y]) @ new"
      "\<forall>c \<in> set new. \<exists>t y'. c = FillText t x y'" by blast
    with True show ?thesis
      by (intro exI [of _ "FillText line x y # new"]) (simp add: Let_def)
  next
    case False
    from Cons.IH [of calls "line @ word @ [32]" y] False show ?thesis
      by (auto simp: Let_def)
  qed
qed

lemma wrapText_fillText:
  "\<forall>c \<in> set (wrapText measureText text x startY maxWidth lineHeight). \<exists>t y'. c = FillText t x y'"
proof -
  obtain calls line y where
    w: "wrapLoop measureText x maxWidth lineHeight (splitSpace text) [] [] startY = (calls, line, y)"
    by (metis prod_cases3)
  from wrapLoop_calls [of measureText x maxWidth lineHeight "splitSpace text" "[]" "[]" startY] w
  have "\<forall>c \<in> set calls. \<exists>t y'. c = FillText t x y'" by simp
  then show ?thesis by (auto simp: wrapText_def w)
qed

lemma painted_fillText:
  assumes "\<forall>c \<in> set cs. \<exists>t x y. c = FillText t x y"
  shows "painted alpha saved (cs @ rest) = map (Pair alpha) cs @ painted alpha saved rest"
  using assms by (induction cs) auto

lemma titleOpacity_range: "0 \<le> titleOpacity p" "titleOpacity p \<le> 1"
  by (simp_all add: titleOpacity_def)

lemma painted_drawTitleCard:
  "painted alpha saved (drawTitleCard measureText width scene sceneProgress) =
     map (Pair (titleOpacity sceneProgress))
       ([FillRect (width * 0.64 - 60) (160 - 50) (width * 0.26) 240,
         FillText (title scene) (width * 0.64) 160,
         FillText (subtitle scene) (width * 0.64) (160 + 42)]
        @ wrapText measureText (description scene) (width * 0.64) (160 + 90) (width * 0.24) 30)"
proof -
  have ft: "\<forall>c \<in> set (wrapText measureText (description scene) (width * 0.64) (160 + 90)
      (width * 0.24) 30). \<exists>t x y. c = FillText t x y"
    using wrapText_fillText [of measureText "description scene" "width * 0.64" "160 + 90"
        "width * 0.24" 30] by blast
  show ?thesis
    unfolding drawTitleCard_def Let_def
    using painted_fillText [OF ft, of "titleOpacity sceneProgress" "alpha # saved" "[Restore]"]
    by (simp add: titleOpacity_range)
qed

lemma wrapLoop_words:
  assumes "wrapLoop measureText x maxWidth lineHeight words calls line y = (calls', line', y')"
  shows "concat (map callText calls') @ line' =
         concat (map callText calls) @ line @ concat (map (\<lambda>w. w @ [32]) words)"
  using assms
proof (induction words arbitrary: calls line y)
  case Nil
  then show ?case by simp
next
  case (Cons word rest)
  show ?case
  proof (cases "measureText (line @ word @ [32]) > maxWidth \<and> line \<noteq> []")
    case True
    with Cons.prems have
      "wrapLoop measureText x maxWidth lineHeight rest (calls @ [FillText line x y])
         (word @ [32]) (y + lineHeight) = (calls', line', y')"
      by (simp add: Let_def)
    from Cons.IH [OF this] show ?thesis by simp
  next
    case False
    with Cons.prems have
      "wrapLoop measureText x maxWidth lineHeight rest calls (line @ word @ [32]) y
         = (calls', line', y')"
      by (simp add: Let_def)
    from Cons.IH [OF this] show ?thesis by simp
  qed
qed

lemma wrapLoop_rows:
  assumes "wrapLoop measureText x maxWidth lineHeight words calls line y = (calls', line', y')"
    and "map callY calls = map (\<lambda>k. startY + real k * lineHeight) [0..<length calls]"
    and "y = startY + real (length calls) * lineHeight"
    and "\<forall>c \<in> set calls. callText c \<noteq> []"
  shows "map callY calls' = map (\<lambda>k. startY + real k * lineHeight) [0..<length calls'] \<and>
         y' = startY + real (length calls') * lineHeight \<and>
         (\<forall>c \<in> set calls'. callText c \<noteq> [])"
  using assms
proof (induction words arbitrary: calls line y)
  case Nil
  then show ?case by auto
next
  case (Cons word rest)
  show ?case
  proof (cases "measureText (line @ word @ [32]) > maxWidth \<and> line \<noteq> []")
    case True
    with Cons.prems(1) have step:
      "wrapLoop measureText x maxWidth lineHeight rest (calls @ [FillText line x y])
         (word @ [32]) (y + lineHeight) = (calls', line', y')"
      by (simp add: Let_def)
    show ?thesis
    proof (rule Cons.IH [OF step])
      show "map callY (calls @ [FillText line x y]) =
          map (\<lambda>k. startY + real k * lineHeight) [0..<length (calls @ [FillText line x y])]"
        using Cons.prems(2,3) by simp
      show "y + lineHeight = startY + real (length (calls @ [FillText line x y])) * lineHeight"
        using Cons.prems(3) by (simp add: algebra_simps)
      show "\<forall>c \<in> set (calls @ [FillText line x y]). callText c \<noteq> []"
        using Cons.prems(4) True by simp
    qed
  next
    case False
    with Cons.prems(1) have step:
      "wrapLoop measureText x maxWidth lineHeight rest calls (line @ word @ [32]) y
         = (calls', line', y')"
      by (simp add: Let_def)
    from Cons.IH [OF step Cons.prems(2,3,4)] show ?thesis .
  qed
qed


lemma splitSpace_nonempty: "splitSpace t \<noteq> []"
  by (induction t) (auto split: list.splits)

lemma splitSpace_join: "concat (map (\<lambda>w. w @ [32]) (splitSpace t)) = t @ [32]"
proof (induction t)
  case Nil
  show ?case by simp
next
  case (Cons c cs)
  obtain w ws where s: "splitSpace cs = w # ws"
    using splitSpace_nonempty [of cs] by (cases "splitSpace cs") auto
  show ?case
    using Cons.IH by (cases "c = 32") (simp_all add: s)
qed

text \<open>
  Claim C8, as amended. The opacity of the title card is \<open>sin(sceneProgress \<cdot> \<pi>)\<close>
  clamped to \<open>[0, 1]\<close>, and everything the card paints (the backing panel, the title,
  the subtitle and every line of the description) is painted under that one alpha.
  The wrapping takes the words in order: when the candidate line (the line, the word
  and a space) measures more than the column width and the line is not empty, the line
  is drawn as it is and the word starts the next line, one line height lower;
  otherwise the word joins the line. So a first word wider than the column stays on
  the first line. The lines drawn, with the last line before trimming, spell the text
  followed by a space; no committed line is empty; line \<open>k\<close> is drawn at
  \<open>startY + k \<cdot> lineHeight\<close>.
\<close>

theorem title_card_alpha_and_greedy_wrap:
  "titleOpacity sceneProgress = min 1 (max 0 (sin (sceneProgress * pi))) \<and>
   painted alpha saved (drawTitleCard measureText width scene sceneProgress) =
     map (Pair (titleOpacity sceneProgress))
       ([FillRect (width * 0.64 - 60) (160 - 50) (width * 0.26) 240,
         FillText (title scene) (width * 0.64) 160,
         FillText (subtitle scene) (width * 0.64) (160 + 42)]
        @ wrapText measureText (description scene) (width * 0.64) (160 + 90) (width * 0.24) 30) \<and>
   (measureText (line @ word @ [32]) > maxWidth \<and> line \<noteq> [] \<longrightarrow>
      wrapLoop measureText x maxWidth lineHeight (word # rest) calls line y =
      wrapLoop measureText x maxWidth lineHeight rest (calls @ [FillText line x y])
        (word @ [32]) (y + lineHeight)) \<and>
   (measureText (line @ word @ [32]) \<le> maxWidth \<or> line = [] \<longrightarrow>
      wrapLoop measureText x maxWidth lineHeight (word # rest) calls line y =
      wrapLoop measureText x maxWidth lineHeight rest calls (line @ word @ [32]) y) \<and>
   (wrapLoop measureText x maxWidth lineHeight (splitSpace content) [] [] startY = (calls', line', y') \<longrightarrow>
      wrapText measureText content x startY maxWidth lineHeight = calls' @ [FillText (trim line') x y'] \<and>
      concat (map callText calls') @ line' = content @ [32] \<and>
      (\<forall>c \<in> set calls'. callText c \<noteq> []) \<and>
      map callY calls' = map (\<lambda>k. startY + real k * lineHeight) [0..<length calls'] \<and>
      y' = startY + real (length calls') * lineHeight)"
proof (intro conjI impI)
  show "titleOpacity sceneProgress = min 1 (max 0 (sin (sceneProgress * pi)))"
    by (simp add: titleOpacity_def)
  show "painted alpha saved (drawTitleCard measureText width scene sceneProgress) =
     map (Pair (titleOpacity sceneProgress))
       ([FillRect (width * 0.64 - 60) (160 - 50) (width * 0.26) 240,
         FillText (title scene) (width * 0.64) 160,
         FillText (subtitle scene) (width * 0.64) (160 + 42)]
        @ wrapText measureText (description scene) (width * 0.64) (160 + 90) (width * 0.24) 30)"
    by (rule painted_drawTitleCard)
next
  assume "measureText (line @ word @ [32]) > maxWidth \<and> line \<noteq> []"
  then show "wrapLoop measureText x maxWidth lineHeight (word # rest) calls line y =
      wrapLoop measureText x maxWidth lineHeight rest (calls @ [FillText line x y])
        (word @ [32]) (y + lineHeight)"
    by (simp add: Let_def)
next
  assume "measureText (line @ word @ [32]) \<le> maxWidth \<or> line = []"
  then show "wrapLoop measureText x maxWidth lineHeight (word # rest) calls line y =
      wrapLoop measureText x maxWidth lineHeight rest calls (line @ word @ [32]) y"
    by (auto simp: Let_def)
next
  assume w: "wrapLoop measureText x maxWidth lineHeight (splitSpace content) [] [] startY
      = (calls', line', y')"
  show "wrapText measureText content x startY maxWidth lineHeight = calls' @ [FillText (trim line') x y']"
    by (simp add: wrapText_def w)
  show "concat (map callText calls') @ line' = content @ [32]"
    using wrapLoop_words [OF w] by (simp add: splitSpace_join)
  have rows: "map callY calls' = map (\<lambda>k. startY + real k * lineHeight) [0..<length calls'] \<and>
         y' = startY + real (length calls') * lineHeight \<and>
         (\<forall>c \<in> set calls'. callText c \<noteq> [])"
    by (rule wrapLoop_rows [OF w]) simp_all
  from rows show "\<forall>c \<in> set calls'. callText c \<noteq> []" by blast
  from rows show "map callY calls' = map (\<lambda>k. startY + real k * lineHeight) [0..<length calls']"
    by blast
  from rows show "y' = startY + real (length calls') * lineHeight" by blast
qed

lemma splitSpace_example: "splitSpace (str ''ab cd ef'') = [str ''ab'', str ''cd'', str ''ef'']"
  by (simp add: str_def)

lemma wrapLoop_example:
  "wrapLoop fixedPitch 0 60 30 (splitSpace (str ''ab cd ef'')) [] [] 0 =
     ([FillText (str ''ab cd '') 0 0], str ''ef '', 30)"
  unfolding splitSpace_example by (simp add: str_def fixedPitch_def Let_def)

lemma trim_example: "trim (str ''ef '') = str ''ef''"
  by (simp add: trim_def str_def isWhiteSpace_def)

theorem title_card_alpha_and_greedy_wrap_witness:
  "fixedPitch (str ''ab cd '' @ str ''ef'' @ [32]) > 60 \<and> str ''ab cd '' \<noteq> [] \<and>
   wrapLoop fixedPitch 0 60 30 [str ''ef''] [] (str ''ab cd '') 0 =
     wrapLoop fixedPitch 0 60 30 [] [FillText (str ''ab cd '') 0 0] (str ''ef'' @ [32]) 30 \<and>
   fixedPitch (str ''ab '' @ str ''cd'' @ [32]) \<le> 60 \<and>
   wrapLoop fixedPitch 0 60 30 [str ''cd'', str ''ef''] [] (str ''ab '') 0 =
     wrapLoop fixedPitch 0 60 30 [str ''ef''] [] (str ''ab '' @ str ''cd'' @ [32]) 0 \<and>
   wrapText fixedPitch (str ''ab cd ef'') 0 0 60 30 =
     [FillText (str ''ab cd '') 0 0, FillText (str ''ef'') 0 30]"
proof -
  have a: "fixedPitch (str ''ab cd '' @ str ''ef'' @ [32]) > 60 \<and> str ''ab cd '' \<noteq> []"
    by (simp add: fixedPitch_def str_def)
  have b: "fixedPitch (str ''ab '' @ str ''cd'' @ [32]) \<le> 60 \<or> str ''ab '' = []"
    by (simp add: fixedPitch_def str_def)
  note t1 = title_card_alpha_and_greedy_wrap [where measureText = fixedPitch
      and line = "str ''ab cd ''" and word = "str ''ef''" and maxWidth = 60 and x = 0
      and lineHeight = 30 and rest = "[]" and calls = "[]" and y = 0
      and content = "str ''ab cd ef''" and startY = 0
      and calls' = "[FillText (str ''ab cd '') 0 0]" and line' = "str ''ef ''" and y' = 30]
  note t2 = title_card_alpha_and_greedy_wrap [where measureText = fixedPitch
      and line = "str ''ab ''" and word = "str ''cd''" and maxWidth = 60 and x = 0
      and lineHeight = 30 and rest = "[str ''ef'']" and calls = "[]" and y = 0]
  have c: "wrapLoop fixedPitch 0 60 30 [str ''ef''] [] (str ''ab cd '') 0 =
     wrapLoop fixedPitch 0 60 30 [] [FillText (str ''ab cd '') 0 0] (str ''ef'' @ [32]) 30"
    using t1 a by simp
  have d: "wrapLoop fixedPitch 0 60 30 [str ''cd'', str ''ef''] [] (str ''ab '') 0 =
     wrapLoop fixedPitch 0 60 30 [str ''ef''] [] (str ''ab '' @ str ''cd'' @ [32]) 0"
    using t2 b by blast
  have e: "wrapText fixedPitch (str ''ab cd ef'') 0 0 60 30 =
     [FillText (str ''ab cd '') 0 0, FillText (str ''ef'') 0 30]"
    using t1 wrapLoop_example by (simp add: trim_example)
  from a b c d e show ?thesis by (simp add: fixedPitch_def str_def)
qed

text \<open>
  The claim as it stands would have the line committed whenever the candidate line is
  too wide. A text of one word wider than the column: the candidate measures 70 against
  a column of 20, nothing is committed, and the word is drawn on the first line.
\<close>

theorem wide_first_word_not_committed:
  "fixedPitch ([] @ str ''abcdef'' @ [32]) > 20 \<and>
   wrapLoop fixedPitch 0 20 30 [str ''abcdef''] [] [] 0 = ([], str ''abcdef'' @ [32], 0) \<and>
   wrapText fixedPitch (str ''abcdef'') 0 0 20 30 = [FillText (str ''abcdef'') 0 0]"
  by (simp add: fixedPitch_def str_def wrapText_def trim_def isWhiteSpace_def Let_def)

section \<open>Random values and the frame\<close>


lemma drawIllustration_not_cities:
  assumes "illustration scene \<noteq> str ''cities''"
  shows "drawIllustration random width height scene sceneProgress =
         drawIllustration random' width height scene sceneProgress"
  using assms by (simp add: drawIllustration_def)

lemma drawCityLights_cong:
  assumes "\<forall>k < 88. (random k > 0.7) = (random' k > 0.7)"
  shows "drawCityLights random width height progress accentColour =
         drawCityLights random' width height progress accentColour"
proof -
  have "(random (layer * 22 + i) > 0.7) = (random' (layer * 22 + i) > 0.7)"
    if "layer < 4" "i < 22" for layer i
  proof -
    have "layer * 22 + i < 88" using that by simp
    with assms show ?thesis by blast
  qed
  then show ?thesis
    unfolding drawCityLights_def Let_def
    by (intro arg_cong [where f = concat] map_cong refl arg_cong2 [where f = "(@)"]) simp_all
qed

lemma accents_no_bar:
  "filter isBar (if lit then [FillStyle c, FillRect x' y' 6 12, FillStyle c'] else []) = []"
  by simp

lemma drawCityLights_bars_same:
  "filter isBar (drawCityLights random width height progress accentColour) =
   filter isBar (drawCityLights random' width height progress accentColour)"
  unfolding drawCityLights_def Let_def
  by (simp add: filter_concat comp_def accents_no_bar del: upt_Suc)

lemma drawCityLights_bars_count:
  "length (filter isBar (drawCityLights random width height progress accentColour)) = 88"
  unfolding drawCityLights_def Let_def
  by (simp add: filter_concat comp_def accents_no_bar length_concat sum_list_triv del: upt_Suc)


text \<open>
  Claim C7. The calls that \<open>drawScene\<close> makes on a surface are a function of the scene,
  the two progress values, the size of the surface and its text metrics; the values
  that \<open>Math.random\<close> returns reach \<open>drawCityLights\<close> only. So for a scene whose
  illustration is not \<open>cities\<close> two paints make the same calls whatever the random
  values are. For \<open>cities\<close> the random values decide which lit windows are drawn and
  nothing else: two paints whose draws fall on the same side of 0.7 make the same
  calls, and in any case the 88 building silhouettes are the same. The frame loop
  (\<open>renderFrame\<close>) takes no random value at all.
\<close>

theorem frame_deterministic_except_cities:
  "(illustration scene \<noteq> str ''cities'' \<longrightarrow>
      drawScene random measureText width height scene sceneProgress globalProgress =
      drawScene random' measureText width height scene sceneProgress globalProgress) \<and>
   ((\<forall>k < 88. (random k > 0.7) = (random' k > 0.7)) \<longrightarrow>
      drawScene random measureText width height scene sceneProgress globalProgress =
      drawScene random' measureText width height scene sceneProgress globalProgress) \<and>
   filter isBar (drawCityLights random width height progress accentColour) =
     filter isBar (drawCityLights random' width height progress accentColour) \<and>
   length (filter isBar (drawCityLights random width height progress accentColour)) = 88"
proof (intro conjI impI)
  assume "illustration scene \<noteq> str ''cities''"
  from drawIllustration_not_cities [OF this, of random width height sceneProgress random']
  show "drawScene random measureText width height scene sceneProgress globalProgress =
      drawScene random' measureText width height scene sceneProgress globalProgress"
    by (simp add: drawScene_def)
next
  assume "\<forall>k < 88. (random k > 0.7) = (random' k > 0.7)"
  from drawCityLights_cong [OF this]
  have "drawIllustration random width height scene sceneProgress =
        drawIllustration random' width height scene sceneProgress"
    by (simp add: drawIllustration_def)
  then show "drawScene random measureText width height scene sceneProgress globalProgress =
      drawScene random' measureText width height scene sceneProgress globalProgress"
    by (simp add: drawScene_def)
next
  show "filter isBar (drawCityLights random width height progress accentColour) =
     filter isBar (drawCityLights random' width height progress accentColour)"
    by (rule drawCityLights_bars_same)
  show "length (filter isBar (drawCityLights random width height progress accentColour)) = 88"
    by (rule drawCityLights_bars_count)
qed

lemma drawCityLights_length:
  "length (drawCityLights allLit width height progress accentColour) = 356"
  "length (drawCityLights noneLit width height progress accentColour) = 92"
  unfolding drawCityLights_def Let_def
  by (simp_all add: allLit_def noneLit_def length_concat comp_def sum_list_triv del: upt_Suc)

theorem frame_deterministic_except_cities_witness:
  "illustration (sceneWith ''stars'') \<noteq> str ''cities'' \<and>
   drawScene allLit fixedPitch CANVAS_WIDTH CANVAS_HEIGHT (sceneWith ''stars'') (1 / 6) (5 / 12) =
   drawScene noneLit fixedPitch CANVAS_WIDTH CANVAS_HEIGHT (sceneWith ''stars'') (1 / 6) (5 / 12) \<and>
   allLit 0 > 0.7 \<and> brightLit 0 > 0.7 \<and> allLit 87 > 0.7 \<and> brightLit 87 > 0.7 \<and>
   drawScene allLit fixedPitch CANVAS_WIDTH CANVAS_HEIGHT (sceneWith ''cities'') (1 / 6) (5 / 12) =
   drawScene brightLit fixedPitch CANVAS_WIDTH CANVAS_HEIGHT (sceneWith ''cities'') (1 / 6) (5 / 12) \<and>
   drawCityLights allLit CANVAS_WIDTH CANVAS_HEIGHT (1 / 6) [] \<noteq>
   drawCityLights noneLit CANVAS_WIDTH CANVAS_HEIGHT (1 / 6) []"
proof -
  have a: "illustration (sceneWith ''stars'') \<noteq> str ''cities''"
    by (simp add: sceneWith_def str_def)
  have b: "\<forall>k < 88. (allLit k > 0.7) = (brightLit k > 0.7)"
    by (simp add: allLit_def brightLit_def)
  have c: "drawCityLights allLit CANVAS_WIDTH CANVAS_HEIGHT (1 / 6) [] \<noteq>
      drawCityLights noneLit CANVAS_WIDTH CANVAS_HEIGHT (1 / 6) []"
  proof -
    have "length (drawCityLights allLit CANVAS_WIDTH CANVAS_HEIGHT (1 / 6) []) \<noteq>
        length (drawCityLights noneLit CANVAS_WIDTH CANVAS_HEIGHT (1 / 6) [])"
      by (simp add: drawCityLights_length)
    then show ?thesis by auto
  qed
  from frame_deterministic_except_cities [where scene = "sceneWith ''stars''" and random = allLit
      and random' = noneLit and measureText = fixedPitch and width = CANVAS_WIDTH
      and height = CANVAS_HEIGHT and sceneProgress = "1 / 6" and globalProgress = "5 / 12"] a
  have d: "drawScene allLit fixedPitch CANVAS_WIDTH CANVAS_HEIGHT (sceneWith ''stars'') (1 / 6) (5 / 12) =
   drawScene noneLit fixedPitch CANVAS_WIDTH CANVAS_HEIGHT (sceneWith ''stars'') (1 / 6) (5 / 12)"
    by blast
  from frame_deterministic_except_cities [where scene = "sceneWith ''cities''" and random = allLit
      and random' = brightLit and measureText = fixedPitch and width = CANVAS_WIDTH
      and height = CANVAS_HEIGHT and sceneProgress = "1 / 6" and globalProgress = "5 / 12"] b
  have e: "drawScene allLit fixedPitch CANVAS_WIDTH CANVAS_HEIGHT (sceneWith ''cities'') (1 / 6) (5 / 12) =
   drawScene brightLit fixedPitch CANVAS_WIDTH CANVAS_HEIGHT (sceneWith ''cities'') (1 / 6) (5 / 12)"
    by blast
  have f: "allLit 0 > 0.7 \<and> brightLit 0 > 0.7 \<and> allLit 87 > 0.7 \<and> brightLit 87 > 0.7"
    by (simp add: allLit_def brightLit_def)
  from a c d e f show ?thesis by blast
qed

end
